theory Spec2Isabelle
  imports Main "HOL-Library.Word"
begin

section \<open>Data model of the b2 writer\<close>

text \<open>
  The Go package \<^verbatim>\<open>b2\<close> buffers written bytes in a \<^verbatim>\<open>bytes.Buffer\<close>, keeps a
  SHA-1 accumulator over the same bytes, and seals a chunk every time the buffer
  reaches \<^verbatim>\<open>1e8\<close> bytes. Go's \<^verbatim>\<open>int\<close> is modelled by \<^typ>\<open>int\<close>: every counter of
  the package is bounded by the number of bytes written or of uploads attempted, far
  below \<open>2^63\<close>.
\<close>

type_synonym byte = "8 word"
type_synonym error = string
type_synonym info_map = "(string \<times> string) list"

text \<open>Handles of the external package \<^verbatim>\<open>base\<close>; the package is not part of this
  repository, so its values are opaque tokens.\<close>

datatype Bucket = Bucket (Name: string)
datatype URL = URL string
datatype LargeFile = LargeFile string
datatype FileChunk = FileChunk nat

text \<open>\<^verbatim>\<open>type chunk struct\<close>. The field \<^verbatim>\<open>buf\<close> is a pointer to the sealed buffer; the
  model stores the bytes the buffer held when the chunk was sealed.\<close>

record chunk =
  id_chunk :: int
  attempt :: int
  size_chunk :: int
  sha1 :: string
  buf :: "byte list"

text \<open>A Go channel value: \<^verbatim>\<open>nil\<close>, allocated and open, or closed. The channel is
  unbuffered, so it never stores a chunk.\<close>

datatype chan = NilChan | OpenChan | ClosedChan

text \<open>What the writer does towards the outside, in the order it does it: remote calls,
  goroutines started, and operations on the channel \<^verbatim>\<open>ready\<close>.\<close>

datatype event =
    CallStartLargeFile string string info_map
  | CallGetUploadURL Bucket
  | CallUploadFile URL "byte list" int string string string info_map
  | CallFinishLargeFile LargeFile
  | Go nat
  | ChanSend chunk
  | ChanClose

text \<open>\<^verbatim>\<open>type Writer struct\<close>. A \<^verbatim>\<open>sync.Once\<close> is the flag that its function has
  run. \<^verbatim>\<open>w\<close> is \<^verbatim>\<open>io.MultiWriter(chsh, cbuf)\<close> and has no state of its own;
  \<^verbatim>\<open>wg\<close> is only touched by the goroutines and by \<^verbatim>\<open>Close\<close>, which waits on it.
  \<open>trace\<close> is a ghost field: the events so far.\<close>

record 'h Writer =
  ConcurrentUploads :: int
  TotalRetries :: int
  ready :: chan
  once :: bool
  done_w :: bool
  file_w :: "LargeFile option"
  bucket :: Bucket
  name :: string
  ctype :: string
  info :: info_map
  cbuf :: "byte list"
  cidx :: int
  chsh :: 'h
  trace :: "event list"

text \<open>
  The environment of one writer: the SHA-1 implementation (\<^verbatim>\<open>crypto/sha1\<close>, a
  byte-wise automaton with a start state and a read-out), the answers of the remote
  service, and what the goroutines do as seen from the caller's thread: whether some
  worker ever receives the chunk offered on \<^verbatim>\<open>ready\<close>, and whether the wait group
  ever drains. Every remote call of the caller's thread is guarded by a \<^verbatim>\<open>sync.Once\<close>,
  so it is made at most once and a fixed answer per call is general.
  \<^verbatim>\<open>UploadFile\<close> is handed the writer's buffer itself as an \<^verbatim>\<open>io.Reader\<close>, and reading
  from a \<^verbatim>\<open>bytes.Buffer\<close> removes what is read: \<open>UploadFile_reads\<close> is the number of
  bytes the call has read when it returns.
\<close>

record 'h env =
  sha1_New :: 'h
  sha1_step :: "'h \<Rightarrow> byte \<Rightarrow> 'h"
  sha1_Sum :: "'h \<Rightarrow> byte list"
  GetUploadURL :: "Bucket \<Rightarrow> error + URL"
  UploadFile :: "URL \<Rightarrow> byte list \<Rightarrow> int \<Rightarrow> string \<Rightarrow> string \<Rightarrow> string \<Rightarrow> info_map \<Rightarrow> error option"
  UploadFile_reads :: "URL \<Rightarrow> byte list \<Rightarrow> nat"
  StartLargeFile :: "Bucket \<Rightarrow> string \<Rightarrow> string \<Rightarrow> info_map \<Rightarrow> error + LargeFile"
  GetUploadPartURL :: "LargeFile \<Rightarrow> nat \<Rightarrow> error + FileChunk"
  UploadPart :: "FileChunk \<Rightarrow> chunk \<Rightarrow> error option"
  FinishLargeFile :: "LargeFile \<Rightarrow> error option"
  ready_received :: "chunk \<Rightarrow> bool"
  wg_drains :: bool

text \<open>How a call ends: it returns, it blocks forever, or it panics. Each carries the
  writer's state at that point.\<close>

datatype ('r, 's) outcome = Returned 'r 's | Blocked 's | Panicked 's

fun state_of :: "('r, 's) outcome \<Rightarrow> 's" where
  "state_of (Returned r s) = s"
| "state_of (Blocked s) = s"
| "state_of (Panicked s) = s"

subsection \<open>Formatting\<close>

text \<open>\<^verbatim>\<open>fmt.Sprintf("%x", digest)\<close>: two lower-case hexadecimal digits per byte.\<close>

definition hexdigit :: "nat \<Rightarrow> char" where
  "hexdigit n = ''0123456789abcdef'' ! n"

definition hex :: "byte list \<Rightarrow> string" where
  "hex bs = concat (map (\<lambda>b. [hexdigit (unat b div 16), hexdigit (unat b mod 16)]) bs)"

section \<open>The writer\<close>

text \<open>The literal \<^verbatim>\<open>1e8\<close> of \<^verbatim>\<open>Write\<close>: the size at which the buffer is sealed.\<close>

definition threshold :: nat where
  "threshold = 100000000"

definition NewWriter :: "'h env \<Rightarrow> Bucket \<Rightarrow> string \<Rightarrow> string \<Rightarrow> info_map \<Rightarrow> 'h Writer" where
  "NewWriter env b nm contentType meta =
     \<lparr>ConcurrentUploads = 0, TotalRetries = 0, ready = NilChan, once = False,
      done_w = False, file_w = None, bucket = b, name = nm, ctype = contentType,
      info = meta, cbuf = [], cidx = 0, chsh = sha1_New env, trace = []\<rparr>"

text \<open>\<^verbatim>\<open>bw.w.Write(p)\<close>: the multi-writer feeds \<open>p\<close> to the hash and then to the buffer.
  Neither sink ever returns an error, so the call returns \<open>(len(p), nil)\<close>.\<close>

definition w_Write :: "'h env \<Rightarrow> 'h Writer \<Rightarrow> byte list \<Rightarrow> 'h Writer" where
  "w_Write env bw p =
     bw\<lparr>chsh := foldl (sha1_step env) (chsh bw) p, cbuf := cbuf bw @ p\<rparr>"

definition emit :: "event \<Rightarrow> 'h Writer \<Rightarrow> 'h Writer" where
  "emit e bw = bw\<lparr>trace := trace bw @ [e]\<rparr>"

text \<open>\<^verbatim>\<open>bw.thread()\<close> starts one goroutine and returns at once; what the goroutine
  does is the worker of the last section.\<close>

definition thread :: "'h Writer \<Rightarrow> 'h Writer" where
  "thread bw = emit (Go (length (filter (\<lambda>e. case e of Go _ \<Rightarrow> True | _ \<Rightarrow> False) (trace bw)))) bw"

text \<open>The function handed to \<^verbatim>\<open>bw.once.Do\<close> in \<^verbatim>\<open>sendChunk\<close>; it returns the value
  left in \<^verbatim>\<open>err\<close>.\<close>

definition startLargeFile :: "'h env \<Rightarrow> 'h Writer \<Rightarrow> error option \<times> 'h Writer" where
  "startLargeFile env bw =
     (let bw1 = emit (CallStartLargeFile (name bw) (ctype bw) (info bw)) bw in
      case StartLargeFile env (bucket bw) (name bw) (ctype bw) (info bw) of
        Inl e \<Rightarrow> (Some e, bw1)
      | Inr lf \<Rightarrow>
          (let bw2 = bw1\<lparr>file_w := Some lf, ready := OpenChan\<rparr>;
               bw3 = (if ConcurrentUploads bw2 < 1 then bw2\<lparr>ConcurrentUploads := 1\<rparr> else bw2)
           in (None, (thread ^^ nat (ConcurrentUploads bw3)) bw3)))"

text \<open>The chunk literal of \<^verbatim>\<open>sendChunk\<close>; \<^verbatim>\<open>attempt\<close> is not set and has its zero value.\<close>

definition sealed :: "'h env \<Rightarrow> 'h Writer \<Rightarrow> chunk" where
  "sealed env bw =
     \<lparr>id_chunk = cidx bw + 1, attempt = 0, size_chunk = int (length (cbuf bw)),
      sha1 = hex (sha1_Sum env (chsh bw)), buf = cbuf bw\<rparr>"

text \<open>\<^verbatim>\<open>bw.once.Do(...)\<close> in \<^verbatim>\<open>sendChunk\<close>: the function runs if the guard is unused, and
  the guard is used from then on, whatever the function did.\<close>

definition once_Do :: "'h env \<Rightarrow> 'h Writer \<Rightarrow> error option \<times> 'h Writer" where
  "once_Do env bw =
     (if once bw then (None, bw)
      else (case startLargeFile env bw of (err, bw1) \<Rightarrow> (err, bw1\<lparr>once := True\<rparr>)))"

text \<open>\<^verbatim>\<open>sendChunk\<close>. A send on a nil channel blocks forever, a send on a closed channel
  panics, and a send on an open unbuffered channel returns once a worker has received
  the chunk.\<close>

definition sendChunk :: "'h env \<Rightarrow> 'h Writer \<Rightarrow> (error option, 'h Writer) outcome" where
  "sendChunk env bw =
     (let (err, bw1) = once_Do env bw
      in case err of
           Some e \<Rightarrow> Returned (Some e) bw1
         | None \<Rightarrow>
             (case ready bw1 of
                NilChan \<Rightarrow> Blocked bw1
              | ClosedChan \<Rightarrow> Panicked bw1
              | OpenChan \<Rightarrow>
                  if ready_received env (sealed env bw1)
                  then Returned None
                         ((emit (ChanSend (sealed env bw1)) bw1)
                            \<lparr>cidx := cidx bw1 + 1, chsh := sha1_New env, cbuf := []\<rparr>)
                  else Blocked bw1))"


text \<open>\<^verbatim>\<open>Write\<close>. The slice expression \<^verbatim>\<open>p[:left]\<close> panics when \<open>left\<close> is negative.\<close>

function Write :: "'h env \<Rightarrow> 'h Writer \<Rightarrow> byte list \<Rightarrow> (int \<times> error option, 'h Writer) outcome" where
  "Write env bw p =
     (let left = int threshold - int (length (cbuf bw)) in
      if int (length p) < left then Returned (int (length p), None) (w_Write env bw p)
      else if left < 0 then Panicked bw
      else
        (case sendChunk env (w_Write env bw (take (nat left) p)) of
           Returned (Some e) bw2 \<Rightarrow> Returned (left, Some e) bw2
         | Returned None bw2 \<Rightarrow>
             (case Write env bw2 (drop (nat left) p) of
                Returned (k, err) bw3 \<Rightarrow> Returned (left + k, err) bw3
              | Blocked s \<Rightarrow> Blocked s
              | Panicked s \<Rightarrow> Panicked s)
         | Blocked s \<Rightarrow> Blocked s
         | Panicked s \<Rightarrow> Panicked s))"
  by pat_completeness auto
termination
proof (relation "measure (\<lambda>(env, bw, p). 2 * length p + (if threshold \<le> length (cbuf bw) then 1 else 0))")
  show "wf (measure (\<lambda>(env :: 'h env, bw :: 'h Writer, p :: byte list).
          2 * length p + (if threshold \<le> length (cbuf bw) then 1 else 0)))"
    by simp
next
  fix env :: "'h env" and bw :: "'h Writer" and p :: "byte list" and left :: int
    and r :: "error option" and bw2 :: "'h Writer"
  assume left: "left = int threshold - int (length (cbuf bw))"
    and ge: "\<not> int (length p) < left" and nonneg: "\<not> left < 0"
    and sent: "sendChunk env (w_Write env bw (take (nat left) p)) = Returned r bw2"
    and none: "r = None"
  from sent none have "cbuf bw2 = []"
    by (auto simp: sendChunk_def emit_def split: prod.splits option.splits chan.splits if_splits)
  moreover have "0 < threshold"
    by (simp add: threshold_def)
  ultimately show "((env, bw2, drop (nat left) p), (env, bw, p))
          \<in> measure (\<lambda>(env, bw, p). 2 * length p + (if threshold \<le> length (cbuf bw) then 1 else 0))"
    using left ge nonneg by (cases "left = 0") auto
qed

declare Write.simps [simp del]

text \<open>\<^verbatim>\<open>simpleWriteFile\<close>: the whole buffer in one request. The call gets the pointer
  \<^verbatim>\<open>bw.cbuf\<close>, so the bytes it reads are gone from the writer's buffer afterwards; the
  hash is not touched.\<close>

definition simpleWriteFile :: "'h env \<Rightarrow> 'h Writer \<Rightarrow> error option \<times> 'h Writer" where
  "simpleWriteFile env bw =
     (let bw1 = emit (CallGetUploadURL (bucket bw)) bw in
      case GetUploadURL env (bucket bw) of
        Inl e \<Rightarrow> (Some e, bw1)
      | Inr ue \<Rightarrow>
          (let digest = hex (sha1_Sum env (chsh bw)) in
           (UploadFile env ue (cbuf bw) (int (length (cbuf bw))) (name bw) (ctype bw) digest (info bw),
            (emit (CallUploadFile ue (cbuf bw) (int (length (cbuf bw))) (name bw) (ctype bw) digest (info bw)) bw1)
              \<lparr>cbuf := drop (UploadFile_reads env ue (cbuf bw)) (cbuf bw)\<rparr>)))"

text \<open>The function handed to \<^verbatim>\<open>bw.done.Do\<close> in \<^verbatim>\<open>Close\<close>; it returns the value left
  in \<^verbatim>\<open>oerr\<close>. Closing a nil or a closed channel panics, and so does the call through a
  nil \<^verbatim>\<open>bw.file\<close>.\<close>

definition finalize :: "'h env \<Rightarrow> 'h Writer \<Rightarrow> (error option, 'h Writer) outcome" where
  "finalize env bw =
     (if cidx bw = 0 then (case simpleWriteFile env bw of (oerr, bw1) \<Rightarrow> Returned oerr bw1)
      else
        (case (if 0 < length (cbuf bw) then sendChunk env bw else Returned None bw) of
           Returned (Some e) bw1 \<Rightarrow> Returned (Some e) bw1
         | Returned None bw1 \<Rightarrow>
             (case ready bw1 of
                NilChan \<Rightarrow> Panicked bw1
              | ClosedChan \<Rightarrow> Panicked bw1
              | OpenChan \<Rightarrow>
                  (let bw2 = emit ChanClose (bw1\<lparr>ready := ClosedChan\<rparr>) in
                   if \<not> wg_drains env then Blocked bw2
                   else
                     (case file_w bw2 of
                        None \<Rightarrow> Panicked bw2
                      | Some lf \<Rightarrow>
                          Returned (FinishLargeFile env lf) (emit (CallFinishLargeFile lf) bw2))))
         | Blocked s \<Rightarrow> Blocked s
         | Panicked s \<Rightarrow> Panicked s))"

text \<open>\<^verbatim>\<open>Close\<close>. \<^verbatim>\<open>sync.Once.Do\<close> marks the guard as used when its function returns
  or panics; a later \<^verbatim>\<open>Do\<close> returns at once and \<^verbatim>\<open>oerr\<close> keeps its zero value.\<close>

definition Close :: "'h env \<Rightarrow> 'h Writer \<Rightarrow> (error option, 'h Writer) outcome" where
  "Close env bw =
     (if done_w bw then Returned None bw
      else
        (case finalize env bw of
           Returned oerr bw1 \<Rightarrow> Returned oerr (bw1\<lparr>done_w := True\<rparr>)
         | Blocked s \<Rightarrow> Blocked s
         | Panicked s \<Rightarrow> Panicked (s\<lparr>done_w := True\<rparr>)))"

subsection \<open>A caller\<close>

text \<open>The calls one goroutine makes on a writer, one after the other (the package does
  not support concurrent calls on one writer). A call that blocks or panics ends the
  sequence.\<close>

datatype call = DoWrite "byte list" | DoClose

datatype result = WriteResult int "error option" | CloseResult "error option"

fun perform :: "'h env \<Rightarrow> 'h Writer \<Rightarrow> call \<Rightarrow> (result, 'h Writer) outcome" where
  "perform env bw (DoWrite p) =
     (case Write env bw p of
        Returned (n, err) bw1 \<Rightarrow> Returned (WriteResult n err) bw1
      | Blocked s \<Rightarrow> Blocked s
      | Panicked s \<Rightarrow> Panicked s)"
| "perform env bw DoClose =
     (case Close env bw of
        Returned err bw1 \<Rightarrow> Returned (CloseResult err) bw1
      | Blocked s \<Rightarrow> Blocked s
      | Panicked s \<Rightarrow> Panicked s)"

fun performs :: "'h env \<Rightarrow> 'h Writer \<Rightarrow> call list \<Rightarrow> (result list, 'h Writer) outcome" where
  "performs env bw [] = Returned [] bw"
| "performs env bw (c # cs) =
     (case perform env bw c of
        Returned r bw1 \<Rightarrow>
          (case performs env bw1 cs of
             Returned rs bw2 \<Rightarrow> Returned (r # rs) bw2
           | Blocked s \<Rightarrow> Blocked s
           | Panicked s \<Rightarrow> Panicked s)
      | Blocked s \<Rightarrow> Blocked s
      | Panicked s \<Rightarrow> Panicked s)"


section \<open>The upload workers\<close>

text \<open>
  The goroutine that \<^verbatim>\<open>thread\<close> starts. Between two points where it can wait, a worker
  is in one of these states: started and about to ask for its part endpoint; waiting
  to receive from \<^verbatim>\<open>ready\<close>; holding a received chunk and about to call
  \<^verbatim>\<open>UploadPart\<close>; waiting to send a failed chunk back on \<^verbatim>\<open>ready\<close>; returned; or
  stopped by the panic of a send on a closed channel.
\<close>

datatype worker =
    Starting
  | Receiving FileChunk
  | Uploading FileChunk chunk
  | Sending FileChunk chunk
  | Exited
  | Crashed

text \<open>The workers of one writer with what they share: the channel, the wait group and
  the log. \<open>offered\<close> and \<open>uploaded\<close> are ghost fields: the chunks taken from the
  writer's own thread, and the chunks whose \<^verbatim>\<open>UploadPart\<close> succeeded.\<close>

record pool =
  large_file :: LargeFile
  workers :: "worker list"
  channel :: chan
  wg :: int
  logged :: "error list"
  offered :: "chunk list"
  uploaded :: "chunk list"

definition pool_init :: "LargeFile \<Rightarrow> nat \<Rightarrow> pool" where
  "pool_init lf n =
     \<lparr>large_file = lf, workers = replicate n Starting, channel = OpenChan, wg = 0,
      logged = [], offered = [], uploaded = []\<rparr>"

definition at :: "pool \<Rightarrow> nat \<Rightarrow> worker \<Rightarrow> bool" where
  "at s i w = (i < length (workers s) \<and> workers s ! i = w)"

definition become :: "nat \<Rightarrow> worker \<Rightarrow> pool \<Rightarrow> pool" where
  "become i w s = s\<lparr>workers := (workers s)[i := w]\<rparr>"

text \<open>
  One step of the pool. An unbuffered channel passes a value only when a sender and a
  receiver meet, so a hand-over is one step of both. \<open>take\<close> and \<open>close\<close> are the two
  things the writer's own thread does to the pool: \<^verbatim>\<open>bw.ready <- chunk\<close> in
  \<^verbatim>\<open>sendChunk\<close> and \<^verbatim>\<open>close(bw.ready)\<close> in \<^verbatim>\<open>Close\<close>. A worker counts itself into
  the wait group once it has its endpoint, and the deferred \<^verbatim>\<open>wg.Done\<close> runs when it
  returns and when the send on a closed channel panics.
\<close>

inductive step :: "'h env \<Rightarrow> pool \<Rightarrow> pool \<Rightarrow> bool" for env :: "'h env" where
  endpoint_error:
    "at s i Starting \<Longrightarrow> GetUploadPartURL env (large_file s) i = Inl e \<Longrightarrow>
     step env s (become i Exited (s\<lparr>logged := logged s @ [e]\<rparr>))"
| endpoint_ok:
    "at s i Starting \<Longrightarrow> GetUploadPartURL env (large_file s) i = Inr fc \<Longrightarrow>
     step env s (become i (Receiving fc) (s\<lparr>wg := wg s + 1\<rparr>))"
| take:
    "at s i (Receiving fc) \<Longrightarrow> channel s = OpenChan \<Longrightarrow>
     step env s (become i (Uploading fc c) (s\<lparr>offered := offered s @ [c]\<rparr>))"
| upload_ok:
    "at s i (Uploading fc c) \<Longrightarrow> UploadPart env fc c = None \<Longrightarrow>
     step env s (become i (Receiving fc) (s\<lparr>uploaded := uploaded s @ [c]\<rparr>))"
| upload_error:
    "at s i (Uploading fc c) \<Longrightarrow> UploadPart env fc c = Some e \<Longrightarrow>
     step env s (become i (Sending fc (c\<lparr>attempt := attempt c + 1\<rparr>)) (s\<lparr>logged := logged s @ [e]\<rparr>))"
| resend:
    "at s i (Sending fc c) \<Longrightarrow> at s j (Receiving fc') \<Longrightarrow> channel s = OpenChan \<Longrightarrow>
     step env s (become j (Uploading fc' c) (become i (Receiving fc) s))"
| close:
    "channel s = OpenChan \<Longrightarrow> step env s (s\<lparr>channel := ClosedChan\<rparr>)"
| receive_closed:
    "at s i (Receiving fc) \<Longrightarrow> channel s = ClosedChan \<Longrightarrow>
     step env s (become i Exited (s\<lparr>wg := wg s - 1\<rparr>))"
| send_closed:
    "at s i (Sending fc c) \<Longrightarrow> channel s = ClosedChan \<Longrightarrow>
     step env s (become i Crashed (s\<lparr>wg := wg s - 1\<rparr>))"

text \<open>The chunks the workers hold.\<close>

fun held :: "worker \<Rightarrow> chunk list" where
  "held (Uploading fc c) = [c]"
| "held (Sending fc c) = [c]"
| "held w = []"

definition in_flight :: "pool \<Rightarrow> chunk list" where
  "in_flight s = concat (map held (workers s))"

section \<open>The registry of writers\<close>

text \<open>\<^verbatim>\<open>addWriter\<close> and \<^verbatim>\<open>removeWriter\<close> work on the field \<^verbatim>\<open>sWriters\<close> of the client, a
  \<^verbatim>\<open>map[string]*Writer\<close> that is \<^verbatim>\<open>nil\<close> until the first insertion, under the lock
  \<^verbatim>\<open>slock\<close>: each call is one atomic change of the map. The declaration of these
  fields is not among the sources; the container name \<^verbatim>\<open>w.o.b.Name\<close> is the name of
  the writer's bucket.\<close>

record 'w Client =
  sWriters :: "(string \<rightharpoonup> 'w) option"

definition writer_key :: "'h Writer \<Rightarrow> string" where
  "writer_key w = Name (bucket w) @ ''/'' @ name w"

definition addWriter :: "'h Writer Client \<Rightarrow> 'h Writer \<Rightarrow> 'h Writer Client" where
  "addWriter c w =
     (let m = (case sWriters c of None \<Rightarrow> Map.empty | Some m \<Rightarrow> m)
      in c\<lparr>sWriters := Some (m(writer_key w \<mapsto> w))\<rparr>)"

definition removeWriter :: "'h Writer Client \<Rightarrow> 'h Writer \<Rightarrow> 'h Writer Client" where
  "removeWriter c w =
     (case sWriters c of
        None \<Rightarrow> c
      | Some m \<Rightarrow> c\<lparr>sWriters := Some (m(writer_key w := None))\<rparr>)"

text \<open>Reading a key of a Go map; a nil map has no keys.\<close>

definition registered :: "'w Client \<Rightarrow> string \<Rightarrow> 'w option" where
  "registered c k = (case sWriters c of None \<Rightarrow> None | Some m \<Rightarrow> m k)"

section \<open>Vocabulary of the properties\<close>

subsection \<open>Events and results\<close>

text \<open>The chunks handed over on \<^verbatim>\<open>ready\<close>, in order.\<close>

fun sent :: "event list \<Rightarrow> chunk list" where
  "sent [] = []"
| "sent (ChanSend c # es) = c # sent es"
| "sent (e # es) = sent es"

text \<open>The events of the one-time start: the start call and the goroutines.\<close>

fun is_Go :: "event \<Rightarrow> bool" where
  "is_Go (Go i) = True"
| "is_Go e = False"

fun is_start :: "event \<Rightarrow> bool" where
  "is_start (CallStartLargeFile nm ct meta) = True"
| "is_start (Go i) = True"
| "is_start e = False"

text \<open>The calls of the simple path, and among them the whole-object upload.\<close>

fun is_whole_object :: "event \<Rightarrow> bool" where
  "is_whole_object (CallGetUploadURL b) = True"
| "is_whole_object (CallUploadFile ue d n nm ct digest meta) = True"
| "is_whole_object e = False"

fun is_upload :: "event \<Rightarrow> bool" where
  "is_upload (CallUploadFile ue d n nm ct digest meta) = True"
| "is_upload e = False"

text \<open>The bytes a sequence of calls has written: the sum of the counts that its
  \<^verbatim>\<open>Write\<close> calls returned.\<close>

fun count :: "result \<Rightarrow> int" where
  "count (WriteResult n err) = n"
| "count (CloseResult err) = 0"

definition written :: "result list \<Rightarrow> int" where
  "written rs = sum_list (map count rs)"

subsection \<open>States of a writer\<close>

text \<open>The digest accumulator is the digest state of exactly the bytes in the buffer.\<close>

definition digest_ok :: "'h env \<Rightarrow> 'h Writer \<Rightarrow> bool" where
  "digest_ok env bw \<longleftrightarrow> chsh bw = foldl (sha1_step env) (sha1_New env) (cbuf bw)"

text \<open>A whole-object upload has been issued: the buffer has been handed to the service.\<close>

definition handed_over :: "'h Writer \<Rightarrow> bool" where
  "handed_over bw \<longleftrightarrow> list_ex is_upload (trace bw)"

text \<open>The bytes a writer has taken: the payloads of the chunks handed over, in order,
  followed by the buffer.\<close>

definition taken :: "'h Writer \<Rightarrow> byte list" where
  "taken bw = concat (map buf (sent (trace bw))) @ cbuf bw"

text \<open>The chunks handed over carry the ids \<open>1, ..., cidx\<close> in order, and no attempt.\<close>

definition ids_ok :: "'h Writer \<Rightarrow> bool" where
  "ids_ok bw \<longleftrightarrow> 0 \<le> cidx bw \<and> map id_chunk (sent (trace bw)) = [1..cidx bw]
                 \<and> list_all (\<lambda>c. attempt c = 0) (sent (trace bw))"

text \<open>No call of the simple path has been made.\<close>

definition no_whole_object :: "'h Writer \<Rightarrow> bool" where
  "no_whole_object bw \<longleftrightarrow> (\<forall>e \<in> set (trace bw). \<not> is_whole_object e)"

text \<open>The conditions under which no seal fails or blocks: every chunk offered on
  \<^verbatim>\<open>ready\<close> is received by a worker, the writer has not been closed, and either the
  large file \<open>lf\<close> has been started and the channel is open, or no chunk has been sealed
  and the start call will return \<open>lf\<close>.\<close>

definition serving :: "'h env \<Rightarrow> LargeFile \<Rightarrow> 'h Writer \<Rightarrow> bool" where
  "serving env lf bw \<longleftrightarrow>
     (\<forall>c. ready_received env c) \<and> \<not> done_w bw \<and> (once bw \<or> cidx bw = 0) \<and>
     (if once bw then ready bw = OpenChan \<and> file_w bw = Some lf
      else StartLargeFile env (bucket bw) (name bw) (ctype bw) (info bw) = Inr lf)"

subsection \<open>States of the pool\<close>

text \<open>\<open>c\<close> is \<open>c0\<close> after some failed attempts: the same chunk but for an attempt counter
  that is not smaller. In a good pool every chunk that a worker holds or has uploaded is
  such a retry of a chunk taken from the writer's thread.\<close>

definition retry_of :: "chunk \<Rightarrow> chunk \<Rightarrow> bool" where
  "retry_of c0 c \<longleftrightarrow>
     id_chunk c = id_chunk c0 \<and> size_chunk c = size_chunk c0 \<and> sha1 c = sha1 c0
     \<and> buf c = buf c0 \<and> attempt c0 \<le> attempt c"

definition pool_ok :: "pool \<Rightarrow> bool" where
  "pool_ok s \<longleftrightarrow> (\<forall>c \<in> set (in_flight s) \<union> set (uploaded s). \<exists>c0 \<in> set (offered s). retry_of c0 c)"

subsection \<open>Environments that differ in the part calls\<close>

text \<open>The environment with the answers of \<^verbatim>\<open>UploadPart\<close> and \<^verbatim>\<open>GetUploadPartURL\<close>
  replaced by \<open>u\<close> and \<open>g\<close>.\<close>

definition parts_env :: "(FileChunk \<Rightarrow> chunk \<Rightarrow> error option) \<Rightarrow> (LargeFile \<Rightarrow> nat \<Rightarrow> error + FileChunk)
    \<Rightarrow> 'h env \<Rightarrow> 'h env" where
  "parts_env u g env = env\<lparr>UploadPart := u, GetUploadPartURL := g\<rparr>"

subsection \<open>Concrete inputs\<close>

text \<open>A remote service that accepts every call and reads the whole body of a
  whole-object upload, with a toy digest (a running sum), and a new writer for it. The
  examples run the definitions on these.\<close>

definition stub_env :: "nat env" where
  "stub_env =
     \<lparr>sha1_New = 0, sha1_step = (\<lambda>h b. h + unat b + 1), sha1_Sum = (\<lambda>h. [word_of_nat h]),
      GetUploadURL = (\<lambda>b. Inr (URL ''upload'')),
      UploadFile = (\<lambda>ue data n nm ct digest meta. None),
      UploadFile_reads = (\<lambda>ue data. length data),
      StartLargeFile = (\<lambda>b nm ct meta. Inr (LargeFile ''large'')),
      GetUploadPartURL = (\<lambda>lf i. Inr (FileChunk i)),
      UploadPart = (\<lambda>fc c. None),
      FinishLargeFile = (\<lambda>lf. None),
      ready_received = (\<lambda>c. True),
      wg_drains = True\<rparr>"

definition stub_writer :: "nat Writer" where
  "stub_writer = NewWriter stub_env (Bucket ''bucket'') ''object'' ''text/plain'' []"

text \<open>The same service with one call failing: no upload URL; no large file; no finish;
  no part endpoint for worker 0; no part upload. And a chunk.\<close>

definition url_down_env :: "nat env" where
  "url_down_env = stub_env\<lparr>GetUploadURL := (\<lambda>b. Inl ''unavailable'')\<rparr>"

definition start_down_env :: "nat env" where
  "start_down_env = stub_env\<lparr>StartLargeFile := (\<lambda>b nm ct meta. Inl ''start failed'')\<rparr>"

definition finish_fails_env :: "nat env" where
  "finish_fails_env = stub_env\<lparr>FinishLargeFile := (\<lambda>lf. Some ''finish failed'')\<rparr>"

definition endpoint_down_env :: "nat env" where
  "endpoint_down_env =
     parts_env (UploadPart stub_env)
       (\<lambda>lf i. if i = 0 then Inl ''no endpoint'' else Inr (FileChunk i)) stub_env"

definition part_fails_env :: "nat env" where
  "part_fails_env = parts_env (\<lambda>fc c. Some ''part failed'') (GetUploadPartURL stub_env) stub_env"

text \<open>The chunk that a new writer seals from \<open>threshold\<close> bytes \<open>7\<close>. And a pool of one
  worker after the upload of that chunk has failed: the worker is at the send of line
  127, with the channel open.\<close>

definition full_chunk :: chunk where
  "full_chunk =
     \<lparr>id_chunk = 1, attempt = 0, size_chunk = int threshold,
      sha1 = hex (sha1_Sum stub_env (foldl (sha1_step stub_env) (sha1_New stub_env) (replicate threshold 7))),
      buf = replicate threshold 7\<rparr>"

definition stalled_pool :: pool where
  "stalled_pool =
     \<lparr>large_file = LargeFile ''large'',
      workers = [Sending (FileChunk 0) (full_chunk\<lparr>attempt := 1\<rparr>)],
      channel = OpenChan, wg = 1, logged = [''part failed''],
      offered = [full_chunk], uploaded = []\<rparr>"

definition stub_chunk :: chunk where
  "stub_chunk = \<lparr>id_chunk = 1, attempt = 0, size_chunk = 3, sha1 = ''09'', buf = [1, 2, 3]\<rparr>"

section \<open>Lemmas\<close>

lemma threshold_pos: "0 < threshold"
  by (simp add: threshold_def)

subsection \<open>Close runs its body once\<close>

lemma Close_done: "done_w bw \<Longrightarrow> Close env bw = Returned None bw"
  by (simp add: Close_def)

lemma Close_Returned_done: "Close env bw = Returned r bw1 \<Longrightarrow> done_w bw1"
  by (auto simp: Close_def split: if_splits outcome.splits)

lemma performs_Close_done:
  "done_w bw \<Longrightarrow> performs env bw (replicate n DoClose) = Returned (replicate n (CloseResult None)) bw"
  by (induction n) (simp_all add: Close_done)

lemma Close_stub_writer:
  "Close stub_env stub_writer =
     Returned None
       (stub_writer
          \<lparr>done_w := True,
           trace := [CallGetUploadURL (Bucket ''bucket''),
                     CallUploadFile (URL ''upload'') [] 0 ''object'' ''text/plain'' ''00'' []]\<rparr>)"
  by (simp add: Close_def finalize_def simpleWriteFile_def emit_def stub_writer_def NewWriter_def
      stub_env_def hex_def hexdigit_def)

subsection \<open>The registry\<close>

lemma registered_addWriter:
  "registered (addWriter c w) k = (if k = writer_key w then Some w else registered c k)"
  by (simp add: registered_def addWriter_def split: option.splits)

lemma registered_removeWriter:
  "registered (removeWriter c w) k = (if k = writer_key w then None else registered c k)"
  by (simp add: registered_def removeWriter_def split: option.splits)

lemma removeWriter_absent:
  "registered c (writer_key w) = None \<Longrightarrow> removeWriter c w = c"
  by (cases c) (auto simp: registered_def removeWriter_def fun_upd_idem split: option.splits)

subsection \<open>Fields, events and the one-time start\<close>

lemma sent_append [simp]: "sent (xs @ ys) = sent xs @ sent ys"
  by (induction xs rule: sent.induct) simp_all

lemma emit_fields [simp]:
  "trace (emit e bw) = trace bw @ [e]"
  "cbuf (emit e bw) = cbuf bw"
  "cidx (emit e bw) = cidx bw"
  "chsh (emit e bw) = chsh bw"
  "once (emit e bw) = once bw"
  "ready (emit e bw) = ready bw"
  "done_w (emit e bw) = done_w bw"
  "file_w (emit e bw) = file_w bw"
  "bucket (emit e bw) = bucket bw"
  "name (emit e bw) = name bw"
  "ctype (emit e bw) = ctype bw"
  "info (emit e bw) = info bw"
  "ConcurrentUploads (emit e bw) = ConcurrentUploads bw"
  "TotalRetries (emit e bw) = TotalRetries bw"
  by (simp_all add: emit_def)

lemma w_Write_fields [simp]:
  "trace (w_Write env bw p) = trace bw"
  "cbuf (w_Write env bw p) = cbuf bw @ p"
  "cidx (w_Write env bw p) = cidx bw"
  "chsh (w_Write env bw p) = foldl (sha1_step env) (chsh bw) p"
  "once (w_Write env bw p) = once bw"
  "ready (w_Write env bw p) = ready bw"
  "done_w (w_Write env bw p) = done_w bw"
  "file_w (w_Write env bw p) = file_w bw"
  "bucket (w_Write env bw p) = bucket bw"
  "name (w_Write env bw p) = name bw"
  "ctype (w_Write env bw p) = ctype bw"
  "info (w_Write env bw p) = info bw"
  "ConcurrentUploads (w_Write env bw p) = ConcurrentUploads bw"
  "TotalRetries (w_Write env bw p) = TotalRetries bw"
  by (simp_all add: w_Write_def)

lemma w_Write_Nil [simp]: "w_Write env bw [] = bw"
  by (simp add: w_Write_def)

lemma thread_pow:
  "\<exists>gs. (thread ^^ n) bw = bw\<lparr>trace := trace bw @ gs\<rparr> \<and> length gs = n \<and> (\<forall>e \<in> set gs. is_Go e)"
proof (induction n)
  case 0
  show ?case by simp
next
  case (Suc n)
  then obtain gs where gs: "(thread ^^ n) bw = bw\<lparr>trace := trace bw @ gs\<rparr>" "length gs = n"
    "\<forall>e \<in> set gs. is_Go e"
    by blast
  let ?g = "Go (length (filter (\<lambda>e. case e of Go _ \<Rightarrow> True | _ \<Rightarrow> False) (trace bw @ gs)))"
  have "(thread ^^ Suc n) bw = bw\<lparr>trace := trace bw @ (gs @ [?g])\<rparr>"
    by (simp add: gs thread_def emit_def)
  with gs show ?case
    by (intro exI [of _ "gs @ [?g]"]) simp
qed

lemma sent_Go: "\<forall>e \<in> set gs. is_Go e \<Longrightarrow> sent gs = []"
  by (induction gs rule: sent.induct) simp_all

lemma startLargeFile_error:
  "StartLargeFile env (bucket bw) (name bw) (ctype bw) (info bw) = Inl e \<Longrightarrow>
   startLargeFile env bw = (Some e, emit (CallStartLargeFile (name bw) (ctype bw) (info bw)) bw)"
  by (simp add: startLargeFile_def)

lemma startLargeFile_ok:
  assumes "StartLargeFile env (bucket bw) (name bw) (ctype bw) (info bw) = Inr lf"
  shows "\<exists>gs. startLargeFile env bw =
           (None, bw\<lparr>file_w := Some lf, ready := OpenChan,
                      ConcurrentUploads := max 1 (ConcurrentUploads bw),
                      trace := trace bw @ CallStartLargeFile (name bw) (ctype bw) (info bw) # gs\<rparr>)
         \<and> length gs = nat (max 1 (ConcurrentUploads bw)) \<and> (\<forall>e \<in> set gs. is_Go e)"
proof -
  let ?bw2 = "(emit (CallStartLargeFile (name bw) (ctype bw) (info bw)) bw)\<lparr>file_w := Some lf, ready := OpenChan\<rparr>"
  let ?bw3 = "if ConcurrentUploads ?bw2 < 1 then ?bw2\<lparr>ConcurrentUploads := 1\<rparr> else ?bw2"
  obtain gs where gs: "(thread ^^ nat (ConcurrentUploads ?bw3)) ?bw3 = ?bw3\<lparr>trace := trace ?bw3 @ gs\<rparr>"
    "length gs = nat (ConcurrentUploads ?bw3)" "\<forall>e \<in> set gs. is_Go e"
    using thread_pow by blast
  have "startLargeFile env bw = (None, (thread ^^ nat (ConcurrentUploads ?bw3)) ?bw3)"
    using assms by (simp add: startLargeFile_def Let_def)
  with gs show ?thesis
    by (intro exI [of _ gs]) (auto simp: emit_def max_def)
qed

lemma sent_start: "\<forall>e \<in> set es. is_start e \<Longrightarrow> sent es = []"
  by (induction es rule: sent.induct) simp_all

lemma is_Go_start: "is_Go e \<Longrightarrow> is_start e"
  by (cases e) simp_all

lemma once_Do_frame:
  "\<exists>es. trace (snd (once_Do env bw)) = trace bw @ es \<and> (\<forall>e \<in> set es. is_start e)
     \<and> (once bw \<longrightarrow> es = [])"
  "cbuf (snd (once_Do env bw)) = cbuf bw"
  "cidx (snd (once_Do env bw)) = cidx bw"
  "chsh (snd (once_Do env bw)) = chsh bw"
  "done_w (snd (once_Do env bw)) = done_w bw"
  "bucket (snd (once_Do env bw)) = bucket bw"
  "name (snd (once_Do env bw)) = name bw"
  "ctype (snd (once_Do env bw)) = ctype bw"
  "info (snd (once_Do env bw)) = info bw"
  "TotalRetries (snd (once_Do env bw)) = TotalRetries bw"
  "once (snd (once_Do env bw))"
proof -
  show "\<exists>es. trace (snd (once_Do env bw)) = trace bw @ es \<and> (\<forall>e \<in> set es. is_start e)
     \<and> (once bw \<longrightarrow> es = [])"
  proof (cases "StartLargeFile env (bucket bw) (name bw) (ctype bw) (info bw)")
    case (Inl e)
    then show ?thesis
      by (auto simp: once_Do_def startLargeFile_error)
  next
    case (Inr lf)
    from startLargeFile_ok [OF Inr] obtain gs where
      "startLargeFile env bw =
           (None, bw\<lparr>file_w := Some lf, ready := OpenChan,
                      ConcurrentUploads := max 1 (ConcurrentUploads bw),
                      trace := trace bw @ CallStartLargeFile (name bw) (ctype bw) (info bw) # gs\<rparr>)"
      "\<forall>e \<in> set gs. is_Go e"
      by blast
    then show ?thesis
      by (auto simp: once_Do_def is_Go_start)
  qed
  have other: "cbuf (snd (once_Do env bw)) = cbuf bw \<and> cidx (snd (once_Do env bw)) = cidx bw
      \<and> chsh (snd (once_Do env bw)) = chsh bw \<and> done_w (snd (once_Do env bw)) = done_w bw
      \<and> bucket (snd (once_Do env bw)) = bucket bw \<and> name (snd (once_Do env bw)) = name bw
      \<and> ctype (snd (once_Do env bw)) = ctype bw \<and> info (snd (once_Do env bw)) = info bw
      \<and> TotalRetries (snd (once_Do env bw)) = TotalRetries bw"
  proof (cases "StartLargeFile env (bucket bw) (name bw) (ctype bw) (info bw)")
    case (Inl e)
    then show ?thesis
      by (simp add: once_Do_def startLargeFile_error)
  next
    case (Inr lf)
    from startLargeFile_ok [OF Inr] obtain gs where
      "startLargeFile env bw =
           (None, bw\<lparr>file_w := Some lf, ready := OpenChan,
                      ConcurrentUploads := max 1 (ConcurrentUploads bw),
                      trace := trace bw @ CallStartLargeFile (name bw) (ctype bw) (info bw) # gs\<rparr>)"
      by blast
    then show ?thesis
      by (simp add: once_Do_def)
  qed
  from other show "cbuf (snd (once_Do env bw)) = cbuf bw" by simp
  from other show "cidx (snd (once_Do env bw)) = cidx bw" by simp
  from other show "chsh (snd (once_Do env bw)) = chsh bw" by simp
  from other show "done_w (snd (once_Do env bw)) = done_w bw" by simp
  from other show "bucket (snd (once_Do env bw)) = bucket bw" by simp
  from other show "name (snd (once_Do env bw)) = name bw" by simp
  from other show "ctype (snd (once_Do env bw)) = ctype bw" by simp
  from other show "info (snd (once_Do env bw)) = info bw" by simp
  from other show "TotalRetries (snd (once_Do env bw)) = TotalRetries bw" by simp
  show "once (snd (once_Do env bw))"
    by (auto simp: once_Do_def split: prod.splits)
qed

text \<open>The ways \<^verbatim>\<open>sendChunk\<close> can end, in terms of the state \<open>bw1\<close> after \<^verbatim>\<open>once.Do\<close>.\<close>

lemma sendChunk_cases:
  obtains
    (start_error) e where "\<not> once bw" "fst (once_Do env bw) = Some e"
      "sendChunk env bw = Returned (Some e) (snd (once_Do env bw))"
  | (stuck) "fst (once_Do env bw) = None" "sendChunk env bw = Blocked (snd (once_Do env bw))"
  | (panic) "fst (once_Do env bw) = None" "ready (snd (once_Do env bw)) = ClosedChan"
      "sendChunk env bw = Panicked (snd (once_Do env bw))"
  | (sent) "fst (once_Do env bw) = None" "ready (snd (once_Do env bw)) = OpenChan"
      "ready_received env (sealed env (snd (once_Do env bw)))"
      "sendChunk env bw =
         Returned None
           ((emit (ChanSend (sealed env (snd (once_Do env bw)))) (snd (once_Do env bw)))
              \<lparr>cidx := cidx bw + 1, chsh := sha1_New env, cbuf := []\<rparr>)"
proof (cases "once_Do env bw")
  case (Pair err bw1)
  have cidx1: "cidx bw1 = cidx bw"
    using once_Do_frame(3) [of env bw] Pair by simp
  show ?thesis
  proof (cases err)
    case (Some e)
    with Pair have "\<not> once bw"
      by (auto simp: once_Do_def)
    with Pair Some start_error show ?thesis
      by (simp add: sendChunk_def)
  next
    case None
    show ?thesis
    proof (cases "ready bw1")
      case NilChan
      with Pair None stuck show ?thesis by (simp add: sendChunk_def)
    next
      case OpenChan
      show ?thesis
      proof (cases "ready_received env (sealed env bw1)")
        case True
        with Pair None OpenChan sent cidx1 show ?thesis by (simp add: sendChunk_def)
      next
        case False
        with Pair None OpenChan stuck show ?thesis by (simp add: sendChunk_def)
      qed
    next
      case ClosedChan
      with Pair None panic show ?thesis by (simp add: sendChunk_def)
    qed
  qed
qed

subsection \<open>Invariants of the calls\<close>

lemma state_of_relabel [simp]:
  "state_of (case x of Returned (k, err) s \<Rightarrow> Returned (f k, err) s
                     | Blocked s \<Rightarrow> Blocked s | Panicked s \<Rightarrow> Panicked s) = state_of x"
  by (cases x) auto

text \<open>The three branches of \<^verbatim>\<open>Write\<close>.\<close>

lemma Write_small:
  "length (cbuf bw) + length p < threshold \<Longrightarrow>
   Write env bw p = Returned (int (length p), None) (w_Write env bw p)"
  by (subst Write.simps) (simp add: Let_def)

lemma Write_panic:
  "threshold < length (cbuf bw) \<Longrightarrow> Write env bw p = Panicked bw"
  by (subst Write.simps) (simp add: Let_def)

lemma Write_seal:
  assumes "threshold \<le> length (cbuf bw) + length p" and "length (cbuf bw) \<le> threshold"
  shows "Write env bw p =
     (case sendChunk env (w_Write env bw (take (threshold - length (cbuf bw)) p)) of
        Returned (Some e) bw2 \<Rightarrow> Returned (int (threshold - length (cbuf bw)), Some e) bw2
      | Returned None bw2 \<Rightarrow>
          (case Write env bw2 (drop (threshold - length (cbuf bw)) p) of
             Returned (k, err) bw3 \<Rightarrow> Returned (int (threshold - length (cbuf bw)) + k, err) bw3
           | Blocked s \<Rightarrow> Blocked s
           | Panicked s \<Rightarrow> Panicked s)
      | Blocked s \<Rightarrow> Blocked s
      | Panicked s \<Rightarrow> Panicked s)"
proof -
  have "nat (int threshold - int (length (cbuf bw))) = threshold - length (cbuf bw)"
    by simp
  moreover have "int threshold - int (length (cbuf bw)) = int (threshold - length (cbuf bw))"
    using assms(2) by simp
  moreover have "\<not> int (length p) < int threshold - int (length (cbuf bw))"
    using assms(1) by linarith
  moreover have "\<not> int threshold - int (length (cbuf bw)) < 0"
    using assms(2) by simp
  ultimately show ?thesis
    by (subst Write.simps) (simp only: Let_def if_False)
qed

text \<open>The induction of \<^verbatim>\<open>Write\<close> in terms of the three branches.\<close>

lemma Write_induct [consumes 0, case_names small panic seal]:
  assumes small: "\<And>env bw p. length (cbuf bw) + length p < threshold \<Longrightarrow> Q env bw p"
    and panic: "\<And>env bw p. threshold < length (cbuf bw) \<Longrightarrow> Q env bw p"
    and seal: "\<And>env bw p.
        threshold \<le> length (cbuf bw) + length p \<Longrightarrow> length (cbuf bw) \<le> threshold \<Longrightarrow>
        (\<And>bw2. sendChunk env (w_Write env bw (take (threshold - length (cbuf bw)) p)) = Returned None bw2
           \<Longrightarrow> Q env bw2 (drop (threshold - length (cbuf bw)) p)) \<Longrightarrow>
        Q env bw p"
  shows "Q env bw p"
proof (induction env bw p rule: Write.induct)
  case (1 env bw p)
  show ?case
  proof (cases "length (cbuf bw) + length p < threshold")
    case True
    then show ?thesis by (rule small)
  next
    case large: False
    show ?thesis
    proof (cases "threshold < length (cbuf bw)")
      case True
      then show ?thesis by (rule panic)
    next
      case False
      have eq: "nat (int threshold - int (length (cbuf bw))) = threshold - length (cbuf bw)"
        by simp
      have a: "\<not> int (length p) < int threshold - int (length (cbuf bw))"
        using large by linarith
      have b: "\<not> int threshold - int (length (cbuf bw)) < 0"
        using False by simp
      show ?thesis
      proof (rule seal)
        show "threshold \<le> length (cbuf bw) + length p" using large by simp
        show "length (cbuf bw) \<le> threshold" using False by simp
        fix bw2
        assume "sendChunk env (w_Write env bw (take (threshold - length (cbuf bw)) p)) = Returned None bw2"
        then have "sendChunk env (w_Write env bw (take (nat (int threshold - int (length (cbuf bw)))) p))
              = Returned None bw2"
          by (simp only: eq)
        from "1.IH" [OF refl a b this refl]
        show "Q env bw2 (drop (threshold - length (cbuf bw)) p)"
          by (simp only: eq)
      qed
    qed
  qed
qed

text \<open>\<^verbatim>\<open>Write\<close> changes the writer only by writing to the multi-writer and by sealing, so
  a property of the state that both keep holds wherever \<^verbatim>\<open>Write\<close> ends.\<close>

lemma Write_invariant:
  assumes w: "\<And>env bw p. P env bw \<Longrightarrow> P env (w_Write env bw p)"
    and s: "\<And>env bw. P env bw \<Longrightarrow> P env (state_of (sendChunk env bw))"
  shows "P env bw \<Longrightarrow> P env (state_of (Write env bw p))"
proof (induction env bw p rule: Write_induct)
  case (small env bw p)
  then show ?case
    by (simp add: Write_small w)
next
  case (panic env bw p)
  then show ?case
    by (simp add: Write_panic)
next
  case (seal env bw p)
  let ?bw1 = "w_Write env bw (take (threshold - length (cbuf bw)) p)"
  have bw1: "P env (state_of (sendChunk env ?bw1))"
    using seal.prems by (intro s w)
  show ?case
  proof (cases "sendChunk env ?bw1")
    case (Returned r bw2)
    with bw1 have bw2: "P env bw2" by simp
    show ?thesis
    proof (cases r)
      case None
      with Returned bw2 seal.IH seal.hyps show ?thesis
        by (simp add: Write_seal)
    next
      case (Some e)
      with Returned bw2 seal.hyps show ?thesis
        by (simp add: Write_seal)
    qed
  next
    case (Blocked st)
    with bw1 seal.hyps show ?thesis by (simp add: Write_seal)
  next
    case (Panicked st)
    with bw1 seal.hyps show ?thesis by (simp add: Write_seal)
  qed
qed

lemma Close_invariant:
  assumes s: "\<And>bw. P bw \<Longrightarrow> P (state_of (sendChunk env bw))"
    and f: "cidx bw = 0 \<Longrightarrow> P (snd (simpleWriteFile env bw))"
    and c: "\<And>bw. P bw \<Longrightarrow> P (emit ChanClose (bw\<lparr>ready := ClosedChan\<rparr>))"
    and l: "\<And>bw lf. P bw \<Longrightarrow> P (emit (CallFinishLargeFile lf) bw)"
    and d: "\<And>bw. P bw \<Longrightarrow> P (bw\<lparr>done_w := True\<rparr>)"
  shows "P bw \<Longrightarrow> P (state_of (Close env bw))"
proof -
  assume bw: "P bw"
  have fin: "P (state_of (finalize env bw))"
  proof (cases "cidx bw = 0")
    case True
    with f show ?thesis
      by (cases "simpleWriteFile env bw") (simp add: finalize_def)
  next
    case False
    let ?o = "if 0 < length (cbuf bw) then sendChunk env bw else Returned None bw"
    have o: "P (state_of ?o)"
      using s [OF bw] bw by simp
    show ?thesis
    proof (cases ?o)
      case (Returned r bw1)
      with o have "P bw1" by simp
      with False Returned c l show ?thesis
        by (auto simp: finalize_def Let_def split: option.splits chan.splits)
    next
      case (Blocked st)
      with o False show ?thesis by (simp add: finalize_def)
    next
      case (Panicked st)
      with o False show ?thesis by (simp add: finalize_def)
    qed
  qed
  show ?thesis
  proof (cases "finalize env bw")
    case (Returned r bw1)
    with fin bw d show ?thesis by (simp add: Close_def)
  next
    case (Blocked st)
    with fin bw show ?thesis by (simp add: Close_def)
  next
    case (Panicked st)
    with fin bw d show ?thesis by (simp add: Close_def)
  qed
qed

lemma state_of_perform:
  "state_of (perform env bw (DoWrite p)) = state_of (Write env bw p)"
  "state_of (perform env bw DoClose) = state_of (Close env bw)"
  by (auto split: outcome.splits)

lemma performs_invariant:
  assumes "\<And>bw c. P bw \<Longrightarrow> P (state_of (perform env bw c))"
  shows "P bw \<Longrightarrow> P (state_of (performs env bw cs))"
proof (induction cs arbitrary: bw)
  case Nil
  then show ?case by simp
next
  case (Cons c cs)
  show ?case
  proof (cases "perform env bw c")
    case (Returned r bw1)
    with assms [OF Cons.prems, of c] have "P bw1" by simp
    from Cons.IH [OF this] Returned show ?thesis
      by (auto split: outcome.splits)
  next
    case (Blocked st)
    with assms [OF Cons.prems, of c] show ?thesis by simp
  next
    case (Panicked st)
    with assms [OF Cons.prems, of c] show ?thesis by simp
  qed
qed

subsection \<open>What a returning sendChunk did\<close>

lemma once_Do_error:
  assumes "fst (once_Do env bw) = Some e"
  shows "\<not> once bw \<and> StartLargeFile env (bucket bw) (name bw) (ctype bw) (info bw) = Inl e
         \<and> snd (once_Do env bw) = (emit (CallStartLargeFile (name bw) (ctype bw) (info bw)) bw)\<lparr>once := True\<rparr>"
proof (cases "StartLargeFile env (bucket bw) (name bw) (ctype bw) (info bw)")
  case (Inl e')
  with assms show ?thesis
    by (auto simp: once_Do_def startLargeFile_error split: if_splits)
next
  case (Inr lf)
  from startLargeFile_ok [OF Inr] assms show ?thesis
    by (auto simp: once_Do_def split: if_splits)
qed

lemma once_Do_ok:
  assumes "fst (once_Do env bw) = None" and "\<not> once bw"
  shows "\<exists>lf. StartLargeFile env (bucket bw) (name bw) (ctype bw) (info bw) = Inr lf
           \<and> ready (snd (once_Do env bw)) = OpenChan \<and> file_w (snd (once_Do env bw)) = Some lf"
proof (cases "StartLargeFile env (bucket bw) (name bw) (ctype bw) (info bw)")
  case (Inl e')
  with assms show ?thesis
    by (auto simp: once_Do_def startLargeFile_error split: if_splits)
next
  case (Inr lf)
  from startLargeFile_ok [OF Inr] assms Inr show ?thesis
    by (auto simp: once_Do_def split: if_splits)
qed

lemma once_Do_used [simp]: "once bw \<Longrightarrow> once_Do env bw = (None, bw)"
  by (simp add: once_Do_def)

lemma sendChunk_error:
  assumes "sendChunk env bw = Returned (Some e) bw2"
  shows "\<not> once bw \<and> StartLargeFile env (bucket bw) (name bw) (ctype bw) (info bw) = Inl e
         \<and> bw2 = (emit (CallStartLargeFile (name bw) (ctype bw) (info bw)) bw)\<lparr>once := True\<rparr>"
  using assms by (cases env bw rule: sendChunk_cases) (auto dest: once_Do_error)

lemma sendChunk_sent:
  assumes "sendChunk env bw = Returned None bw2"
  shows "\<exists>es. (\<forall>e \<in> set es. is_start e) \<and> (once bw \<longrightarrow> es = [])
      \<and> trace bw2 = trace bw @ es @ [ChanSend (sealed env bw)]
      \<and> ready_received env (sealed env bw)
      \<and> cbuf bw2 = [] \<and> chsh bw2 = sha1_New env \<and> cidx bw2 = cidx bw + 1
      \<and> once bw2 \<and> ready bw2 = OpenChan
      \<and> done_w bw2 = done_w bw \<and> bucket bw2 = bucket bw \<and> name bw2 = name bw
      \<and> ctype bw2 = ctype bw \<and> info bw2 = info bw \<and> TotalRetries bw2 = TotalRetries bw"
proof (cases env bw rule: sendChunk_cases)
  case sent
  let ?b = "snd (once_Do env bw)"
  from once_Do_frame(1) [of env bw] obtain es where
    es: "trace ?b = trace bw @ es" "\<forall>e \<in> set es. is_start e" "once bw \<longrightarrow> es = []"
    by blast
  have same: "sealed env ?b = sealed env bw"
    by (simp add: sealed_def once_Do_frame)
  from sent(4) assms have bw2: "bw2 = (emit (ChanSend (sealed env ?b)) ?b)
              \<lparr>cidx := cidx bw + 1, chsh := sha1_New env, cbuf := []\<rparr>"
    by simp
  show ?thesis
    using es sent(2,3) same
    by (intro exI [of _ es]) (simp add: bw2 once_Do_frame)
qed (use assms in auto)

lemma state_of_sendChunk:
  "state_of (sendChunk env bw) = snd (once_Do env bw) \<or>
   (\<exists>bw2. sendChunk env bw = Returned None bw2)"
  by (cases env bw rule: sendChunk_cases) auto

subsection \<open>Digest and buffer\<close>

lemma digest_ok_sendChunk:
  assumes "digest_ok env bw"
  shows "digest_ok env (state_of (sendChunk env bw))"
proof -
  from state_of_sendChunk [of env bw]
  consider (same) "state_of (sendChunk env bw) = snd (once_Do env bw)"
    | (sealed) bw2 where "sendChunk env bw = Returned None bw2"
    by blast
  then show ?thesis
  proof cases
    case same
    with assms show ?thesis
      by (simp add: digest_ok_def once_Do_frame)
  next
    case sealed
    from sendChunk_sent [OF sealed] sealed show ?thesis
      by (auto simp: digest_ok_def)
  qed
qed

lemma digest_ok_Write: "digest_ok env bw \<Longrightarrow> digest_ok env (state_of (Write env bw p))"
  by (rule Write_invariant [where P = digest_ok])
     (simp_all add: digest_ok_def digest_ok_sendChunk [unfolded digest_ok_def])

lemma simpleWriteFile_frame [simp]:
  "chsh (snd (simpleWriteFile env bw)) = chsh bw"
  "cidx (snd (simpleWriteFile env bw)) = cidx bw"
  "sent (trace (snd (simpleWriteFile env bw))) = sent (trace bw)"
  by (simp_all add: simpleWriteFile_def Let_def split: sum.splits)

text \<open>The whole-object upload reads from the writer's buffer. Until it has been issued,
  digest and buffer agree; the property below is the one that every call keeps.\<close>

lemma handed_over_emit [simp]:
  "handed_over (emit e bw) \<longleftrightarrow> handed_over bw \<or> is_upload e"
  by (auto simp: handed_over_def)

lemma handed_over_sendChunk:
  assumes "handed_over bw"
  shows "handed_over (state_of (sendChunk env bw))"
proof -
  from once_Do_frame(1) [of env bw] obtain es where
    es: "trace (snd (once_Do env bw)) = trace bw @ es"
    by blast
  from state_of_sendChunk [of env bw]
  consider (same) "state_of (sendChunk env bw) = snd (once_Do env bw)"
    | (sealed) bw2 where "sendChunk env bw = Returned None bw2"
    by blast
  then show ?thesis
  proof cases
    case same
    with assms es show ?thesis
      by (simp add: handed_over_def)
  next
    case sealed
    from sendChunk_sent [OF sealed] obtain es' where
      "trace bw2 = trace bw @ es' @ [ChanSend (sealed env bw)]"
      by blast
    with assms sealed show ?thesis
      by (simp add: handed_over_def)
  qed
qed

lemma handed_over_Write: "handed_over bw \<Longrightarrow> handed_over (state_of (Write env bw p))"
  by (rule Write_invariant [where P = "\<lambda>env. handed_over"])
     (simp_all add: handed_over_sendChunk, simp add: handed_over_def)

lemma digest_kept_Write:
  "digest_ok env bw \<or> handed_over bw \<Longrightarrow>
   digest_ok env (state_of (Write env bw p)) \<or> handed_over (state_of (Write env bw p))"
  using digest_ok_Write [of env bw p] handed_over_Write [of bw env p] by blast

lemma digest_kept_simpleWriteFile:
  assumes "digest_ok env bw \<or> handed_over bw"
  shows "digest_ok env (snd (simpleWriteFile env bw)) \<or> handed_over (snd (simpleWriteFile env bw))"
proof (cases "GetUploadURL env (bucket bw)")
  case (Inl e)
  then have "snd (simpleWriteFile env bw) = emit (CallGetUploadURL (bucket bw)) bw"
    by (simp add: simpleWriteFile_def)
  with assms show ?thesis
    by (simp add: digest_ok_def)
next
  case (Inr ue)
  then show ?thesis
    by (simp add: simpleWriteFile_def Let_def handed_over_def)
qed

lemma digest_kept_Close:
  assumes "digest_ok env bw \<or> handed_over bw"
  shows "digest_ok env (state_of (Close env bw)) \<or> handed_over (state_of (Close env bw))"
proof -
  let ?P = "\<lambda>bw. digest_ok env bw \<or> handed_over bw"
  have s: "?P (state_of (sendChunk env bw))" if "?P bw" for bw
    using that digest_ok_sendChunk [of env bw] handed_over_sendChunk [of bw env] by blast
  have f: "?P (snd (simpleWriteFile env bw))"
    using assms by (rule digest_kept_simpleWriteFile)
  have c: "?P (emit ChanClose (bw\<lparr>ready := ClosedChan\<rparr>))" if "?P bw" for bw
    using that by (simp add: digest_ok_def handed_over_def)
  have l: "?P (emit (CallFinishLargeFile lf) bw)" if "?P bw" for bw lf
    using that by (simp add: digest_ok_def)
  have d: "?P (bw\<lparr>done_w := True\<rparr>)" if "?P bw" for bw
    using that by (simp add: digest_ok_def handed_over_def)
  show ?thesis
    by (rule Close_invariant [where P = ?P, OF s f c l d]) (use assms in blast)+
qed

lemma digest_kept_performs:
  "digest_ok env bw \<or> handed_over bw \<Longrightarrow>
   digest_ok env (state_of (performs env bw cs)) \<or> handed_over (state_of (performs env bw cs))"
proof (rule performs_invariant [where P = "\<lambda>bw. digest_ok env bw \<or> handed_over bw"])
  fix bw :: "'a Writer" and c
  assume "digest_ok env bw \<or> handed_over bw"
  then show "digest_ok env (state_of (perform env bw c))
      \<or> handed_over (state_of (perform env bw c))"
    by (cases c) (simp_all only: state_of_perform digest_kept_Write digest_kept_Close)
qed

text \<open>What the simple path leaves: the bytes the upload has not read, and the digest of
  all of them.\<close>

lemma Close_simple_buffer:
  assumes "\<not> done_w bw" and "cidx bw = 0" and "GetUploadURL env (bucket bw) = Inr ue"
  shows "cbuf (state_of (Close env bw)) = drop (UploadFile_reads env ue (cbuf bw)) (cbuf bw)"
    and "chsh (state_of (Close env bw)) = chsh bw"
  using assms by (simp_all add: Close_def finalize_def simpleWriteFile_def Let_def)

subsection \<open>Accounting for the bytes\<close>

lemma Write_accounting:
  "Write env bw p = Returned (n, err) bw' \<Longrightarrow>
     0 \<le> n \<and> nat n \<le> length p \<and> (err = None \<longrightarrow> nat n = length p)
     \<and> taken bw' = taken bw @ take (nat n) p
     \<and> length (cbuf bw') \<le> threshold
     \<and> (\<exists>cs. sent (trace bw') = sent (trace bw) @ cs \<and> cidx bw' = cidx bw + int (length cs)
            \<and> (\<forall>c \<in> set cs. length (buf c) = threshold \<and> size_chunk c = int threshold))"
proof (induction env bw p arbitrary: n err bw' rule: Write_induct)
  case (small env bw p)
  then have "n = int (length p)" "err = None" "bw' = w_Write env bw p"
    by (auto simp: Write_small)
  with small.hyps show ?case
    by (auto simp: taken_def)
next
  case (panic env bw p)
  then show ?case
    by (simp add: Write_panic)
next
  case (seal env bw p)
  let ?k = "threshold - length (cbuf bw)"
  let ?bw1 = "w_Write env bw (take ?k p)"
  have len1: "length (cbuf ?bw1) = threshold"
    using seal.hyps by simp
  note unfold = Write_seal [OF seal.hyps, of env]
  show ?case
  proof (cases "sendChunk env ?bw1")
    case (Returned r bw2)
    show ?thesis
    proof (cases r)
      case (Some e)
      from sendChunk_error [OF Returned [unfolded Some]]
      have bw2: "bw2 = (emit (CallStartLargeFile (name ?bw1) (ctype ?bw1) (info ?bw1)) ?bw1)\<lparr>once := True\<rparr>"
        by simp
      from seal.prems unfold Returned Some have res: "n = int ?k" "err = Some e" "bw' = bw2"
        by simp_all
      have nn: "nat n = ?k" "0 \<le> n"
        using res(1) by simp_all
      have "?k \<le> length p"
        using seal.hyps by linarith
      then show ?thesis
        unfolding nn(1) using nn(2) seal.hyps by (simp add: res(2,3) bw2 taken_def)
    next
      case None
      from sendChunk_sent [OF Returned [unfolded None]] obtain es where
        es: "\<forall>e \<in> set es. is_start e" "trace bw2 = trace ?bw1 @ es @ [ChanSend (sealed env ?bw1)]"
          "cbuf bw2 = []" "cidx bw2 = cidx ?bw1 + 1"
        by blast
      have sent2: "sent (trace bw2) = sent (trace bw) @ [sealed env ?bw1]"
        using es by (simp add: sent_start)
      obtain k' where rec: "Write env bw2 (drop ?k p) = Returned (k', err) bw'" and n: "n = int ?k + k'"
        using seal.prems unfold Returned None
        by (auto split: outcome.splits)
      from seal.IH [OF Returned [unfolded None] rec] obtain cs where
        ih: "0 \<le> k'" "nat k' \<le> length (drop ?k p)" "err = None \<longrightarrow> nat k' = length (drop ?k p)"
          "taken bw' = taken bw2 @ take (nat k') (drop ?k p)" "length (cbuf bw') \<le> threshold"
          "sent (trace bw') = sent (trace bw2) @ cs" "cidx bw' = cidx bw2 + int (length cs)"
          "\<forall>c \<in> set cs. length (buf c) = threshold \<and> size_chunk c = int threshold"
        by blast
      have nat_n: "nat n = ?k + nat k'"
        using n ih(1) by simp
      have taken2: "taken bw2 = taken bw @ take ?k p"
        by (simp add: taken_def sent2 es(3) sealed_def)
      have "taken bw' = taken bw @ take (nat n) p"
        by (simp add: ih(4) taken2 nat_n take_add)
      moreover have "sent (trace bw') = sent (trace bw) @ (sealed env ?bw1 # cs)"
        by (simp add: ih(6) sent2)
      moreover have "cidx bw' = cidx bw + int (length (sealed env ?bw1 # cs))"
        using ih(7) es(4) by simp
      moreover have "\<forall>c \<in> set (sealed env ?bw1 # cs). length (buf c) = threshold \<and> size_chunk c = int threshold"
        using ih(8) len1 by (simp add: sealed_def)
      moreover have "nat n \<le> length p" "err = None \<longrightarrow> nat n = length p"
        using ih(2,3) seal.hyps nat_n by auto
      moreover have "0 \<le> n"
        using n ih(1) by simp
      ultimately show ?thesis
        using ih(5) by blast
    qed
  next
    case (Blocked st)
    with seal.prems unfold show ?thesis by simp
  next
    case (Panicked st)
    with seal.prems unfold show ?thesis by simp
  qed
qed

subsection \<open>A service that accepts\<close>

lemma serving_w_Write [simp]: "serving env lf (w_Write env bw p) = serving env lf bw"
  by (simp add: serving_def)

lemma once_Do_serving:
  assumes "serving env lf bw"
  shows "fst (once_Do env bw) = None \<and> ready (snd (once_Do env bw)) = OpenChan
         \<and> file_w (snd (once_Do env bw)) = Some lf"
proof (cases "once bw")
  case True
  with assms show ?thesis by (simp add: serving_def)
next
  case False
  with assms have lf: "StartLargeFile env (bucket bw) (name bw) (ctype bw) (info bw) = Inr lf"
    by (auto simp: serving_def)
  from startLargeFile_ok [OF lf] False show ?thesis
    by (auto simp: once_Do_def)
qed

lemma sendChunk_serving:
  assumes "serving env lf bw"
  shows "\<exists>bw2. sendChunk env bw = Returned None bw2 \<and> serving env lf bw2"
proof -
  let ?b = "snd (once_Do env bw)"
  from once_Do_serving [OF assms]
  have b: "fst (once_Do env bw) = None" "ready ?b = OpenChan" "file_w ?b = Some lf"
    by simp_all
  have recv: "ready_received env (sealed env ?b)"
    using assms by (simp add: serving_def)
  let ?bw2 = "(emit (ChanSend (sealed env ?b)) ?b)\<lparr>cidx := cidx ?b + 1, chsh := sha1_New env, cbuf := []\<rparr>"
  have "sendChunk env bw = Returned None ?bw2"
    using b recv by (cases "once_Do env bw") (simp add: sendChunk_def)
  moreover have "serving env lf ?bw2"
    using assms b by (simp add: serving_def once_Do_frame)
  ultimately show ?thesis by blast
qed

lemma Write_serving:
  "serving env lf bw \<Longrightarrow> length (cbuf bw) < threshold \<Longrightarrow>
   \<exists>bw'. Write env bw p = Returned (int (length p), None) bw' \<and> serving env lf bw'
          \<and> length (cbuf bw') < threshold"
proof (induction env bw p rule: Write_induct)
  case (small env bw p)
  then show ?case
    by (simp add: Write_small)
next
  case (panic env bw p)
  then show ?case by simp
next
  case (seal env bw p)
  let ?k = "threshold - length (cbuf bw)"
  let ?bw1 = "w_Write env bw (take ?k p)"
  from sendChunk_serving [of env lf ?bw1] seal.prems obtain bw2 where
    bw2: "sendChunk env ?bw1 = Returned None bw2" "serving env lf bw2"
    by auto
  from sendChunk_sent [OF bw2(1)] have "cbuf bw2 = []"
    by blast
  with seal.IH [OF bw2] threshold_pos obtain bw' where
    bw': "Write env bw2 (drop ?k p) = Returned (int (length (drop ?k p)), None) bw'"
      "serving env lf bw'" "length (cbuf bw') < threshold"
    by auto
  have "int ?k + int (length (drop ?k p)) = int (length p)"
    using seal.hyps by simp
  with bw' bw2 show ?case
    by (simp add: Write_seal [OF seal.hyps])
qed

lemma taken_sizes:
  assumes "sent (trace bw') = sent (trace bw) @ cs"
    and "\<forall>c \<in> set cs. length (buf c) = threshold \<and> size_chunk c = int threshold"
  shows "length (taken bw') + length (cbuf bw)
         = length (taken bw) + length cs * threshold + length (cbuf bw')"
proof -
  have "map length (map buf cs) = replicate (length cs) threshold"
    using assms(2) by (induction cs) simp_all
  then have "length (concat (map buf cs)) = length cs * threshold"
    by (simp add: length_concat sum_list_replicate)
  then show ?thesis
    by (simp add: taken_def assms(1))
qed

lemma performs_writes_serving:
  "serving env lf bw \<Longrightarrow> length (cbuf bw) < threshold \<Longrightarrow>
   \<exists>bw' cs. performs env bw (map DoWrite ps)
              = Returned (map (\<lambda>p. WriteResult (int (length p)) None) ps) bw'
     \<and> serving env lf bw' \<and> length (cbuf bw') < threshold
     \<and> taken bw' = taken bw @ concat ps
     \<and> sent (trace bw') = sent (trace bw) @ cs \<and> cidx bw' = cidx bw + int (length cs)
     \<and> (\<forall>c \<in> set cs. length (buf c) = threshold \<and> size_chunk c = int threshold)"
proof (induction ps arbitrary: bw)
  case Nil
  then show ?case by simp
next
  case (Cons p ps)
  from Write_serving [OF Cons.prems, of p] obtain bw1 where
    w: "Write env bw p = Returned (int (length p), None) bw1" "serving env lf bw1"
      "length (cbuf bw1) < threshold"
    by blast
  from Write_accounting [OF w(1)] obtain cs1 where
    a1: "taken bw1 = taken bw @ p" "sent (trace bw1) = sent (trace bw) @ cs1"
      "cidx bw1 = cidx bw + int (length cs1)"
      "\<forall>c \<in> set cs1. length (buf c) = threshold \<and> size_chunk c = int threshold"
    by auto
  from Cons.IH [OF w(2,3)] obtain bw' cs where
    ih: "performs env bw1 (map DoWrite ps) = Returned (map (\<lambda>p. WriteResult (int (length p)) None) ps) bw'"
      "serving env lf bw'" "length (cbuf bw') < threshold" "taken bw' = taken bw1 @ concat ps"
      "sent (trace bw') = sent (trace bw1) @ cs" "cidx bw' = cidx bw1 + int (length cs)"
      "\<forall>c \<in> set cs. length (buf c) = threshold \<and> size_chunk c = int threshold"
    by blast
  have "performs env bw (map DoWrite (p # ps))
          = Returned (map (\<lambda>p. WriteResult (int (length p)) None) (p # ps)) bw'"
    using w(1) ih(1) by simp
  moreover have "taken bw' = taken bw @ concat (p # ps)"
    using ih(4) a1(1) by simp
  moreover have "sent (trace bw') = sent (trace bw) @ (cs1 @ cs)"
    using ih(5) a1(2) by simp
  moreover have "cidx bw' = cidx bw + int (length (cs1 @ cs))"
    using ih(6) a1(3) by simp
  moreover have "\<forall>c \<in> set (cs1 @ cs). length (buf c) = threshold \<and> size_chunk c = int threshold"
    using ih(7) a1(4) by auto
  ultimately show ?case
    using ih(2,3) by blast
qed

lemma performs_append:
  "performs env bw (xs @ ys) =
     (case performs env bw xs of
        Returned rs bw1 \<Rightarrow>
          (case performs env bw1 ys of
             Returned rs' bw2 \<Rightarrow> Returned (rs @ rs') bw2
           | Blocked s \<Rightarrow> Blocked s
           | Panicked s \<Rightarrow> Panicked s)
      | Blocked s \<Rightarrow> Blocked s
      | Panicked s \<Rightarrow> Panicked s)"
  by (induction xs arbitrary: bw) (auto split: outcome.splits)

text \<open>Closing a writer that has sealed a chunk, under a service that accepts: the rest
  of the buffer, if any, is handed over as one more chunk.\<close>

lemma Close_serving:
  assumes "serving env lf bw" and "cidx bw \<noteq> 0"
  shows "sent (trace (state_of (Close env bw)))
           = sent (trace bw) @ (if cbuf bw = [] then [] else [sealed env bw])
         \<and> (wg_drains env \<longrightarrow> (\<exists>bw'. Close env bw = Returned (FinishLargeFile env lf) bw'))"
proof -
  from assms have nd: "\<not> done_w bw" and once: "once bw" and ready: "ready bw = OpenChan"
    and lfile: "file_w bw = Some lf"
    by (auto simp: serving_def split: if_splits)
  show ?thesis
  proof (cases "cbuf bw = []")
    case True
    with assms(2) nd ready lfile show ?thesis
      by (simp add: Close_def finalize_def Let_def)
  next
    case False
    from sendChunk_serving [OF assms(1)] obtain bw2 where
      bw2: "sendChunk env bw = Returned None bw2" "serving env lf bw2"
      by blast
    from sendChunk_sent [OF bw2(1)] once
    have t: "trace bw2 = trace bw @ [ChanSend (sealed env bw)]" "ready bw2 = OpenChan" "once bw2"
      by auto
    from bw2(2) t(3) have "file_w bw2 = Some lf"
      by (simp add: serving_def)
    with False assms(2) nd bw2(1) t show ?thesis
      by (simp add: Close_def finalize_def Let_def)
  qed
qed

lemma ceil_div:
  fixes k r t :: nat
  assumes "r < t"
  shows "(k * t + r + t - 1) div t = k + (if r = 0 then 0 else 1)"
proof -
  have tpos: "t \<noteq> 0"
    using assms by simp
  show ?thesis
  proof (cases "r = 0")
    case True
    have e: "k * t + r + t - 1 = k * t + (t - 1)"
      using True assms by simp
    have "(k * t + (t - 1)) div t = k + (t - 1) div t"
      by (rule div_mult_self3 [OF tpos])
    moreover have "(t - 1) div t = 0"
      using assms by simp
    ultimately show ?thesis
      unfolding e using True by simp
  next
    case False
    have e: "k * t + r + t - 1 = (k + 1) * t + (r - 1)"
      using False by (simp add: algebra_simps)
    have "((k + 1) * t + (r - 1)) div t = (k + 1) + (r - 1) div t"
      by (rule div_mult_self3 [OF tpos])
    moreover have "(r - 1) div t = 0"
      using assms by simp
    ultimately show ?thesis
      unfolding e using False by simp
  qed
qed

lemma state_of_performs_snoc:
  "performs env bw xs = Returned rs bw1 \<Longrightarrow>
   state_of (performs env bw (xs @ [c])) = state_of (perform env bw1 c)"
  by (simp add: performs_append split: outcome.splits)

lemma serving_new:
  assumes "StartLargeFile env b nm ct meta = Inr lf" and "\<And>c. ready_received env c"
  shows "serving env lf ((NewWriter env b nm ct meta)\<lparr>ConcurrentUploads := cu, TotalRetries := tr\<rparr>)"
  using assms by (simp add: serving_def NewWriter_def)

subsection \<open>Which path Close takes\<close>

lemma Write_count_lower:
  assumes "Write env bw p = Returned (n, err) bw'" and "threshold \<le> length (cbuf bw) + length p"
  shows "int threshold \<le> int (length (cbuf bw)) + n"
proof (cases "threshold < length (cbuf bw)")
  case True
  with assms show ?thesis by (simp add: Write_panic)
next
  case False
  then have le: "length (cbuf bw) \<le> threshold" by simp
  let ?k = "threshold - length (cbuf bw)"
  note unfold = Write_seal [OF assms(2) le, of env]
  show ?thesis
  proof (cases "sendChunk env (w_Write env bw (take ?k p))")
    case (Returned r bw2)
    show ?thesis
    proof (cases r)
      case None
      with assms(1) unfold Returned obtain k' where
        rec: "Write env bw2 (drop ?k p) = Returned (k', err) bw'" and n: "n = int ?k + k'"
        by (auto split: outcome.splits)
      from Write_accounting [OF rec] have "0 \<le> k'" by simp
      with n le show ?thesis by simp
    next
      case (Some e)
      with assms(1) unfold Returned le show ?thesis by auto
    qed
  next
    case (Blocked st)
    with assms(1) unfold show ?thesis by simp
  next
    case (Panicked st)
    with assms(1) unfold show ?thesis by simp
  qed
qed

lemma Write_sizes:
  assumes "Write env bw p = Returned (n, err) bw'"
  shows "0 \<le> n \<and> length (cbuf bw') \<le> threshold
         \<and> (\<exists>k. cidx bw' = cidx bw + int k
                \<and> int (length (cbuf bw')) + int k * int threshold = int (length (cbuf bw)) + n)"
proof -
  from Write_accounting [OF assms] obtain cs where
    a: "0 \<le> n" "nat n \<le> length p" "taken bw' = taken bw @ take (nat n) p"
      "length (cbuf bw') \<le> threshold" "sent (trace bw') = sent (trace bw) @ cs"
      "cidx bw' = cidx bw + int (length cs)"
      "\<forall>c \<in> set cs. length (buf c) = threshold \<and> size_chunk c = int threshold"
    by blast
  from taken_sizes [OF a(5,7)] a(2,3)
  have "nat n + length (cbuf bw) = length cs * threshold + length (cbuf bw')"
    by simp
  then have "int (nat n) + int (length (cbuf bw)) = int (length cs) * int threshold + int (length (cbuf bw'))"
    by (metis of_nat_add of_nat_mult)
  with a(1) have "int (length (cbuf bw')) + int (length cs) * int threshold = int (length (cbuf bw)) + n"
    by simp
  with a(1,4,6) show ?thesis by blast
qed

lemma performs_writes_sizes:
  "performs env bw (map DoWrite ps) = Returned rs bw' \<Longrightarrow> length (cbuf bw) \<le> threshold \<Longrightarrow>
   0 \<le> written rs \<and> length (cbuf bw') \<le> threshold
   \<and> (\<exists>k. cidx bw' = cidx bw + int k
          \<and> int (length (cbuf bw')) + int k * int threshold = int (length (cbuf bw)) + written rs)"
proof (induction ps arbitrary: bw rs)
  case Nil
  then show ?case by (auto simp: written_def)
next
  case (Cons p ps)
  from Cons.prems(1) obtain n err bw1 rs' where
    w: "Write env bw p = Returned (n, err) bw1"
    and rest: "performs env bw1 (map DoWrite ps) = Returned rs' bw'"
    and rs: "rs = WriteResult n err # rs'"
    by (auto split: outcome.splits)
  from Write_sizes [OF w] obtain k where
    a: "0 \<le> n" "length (cbuf bw1) \<le> threshold" "cidx bw1 = cidx bw + int k"
      "int (length (cbuf bw1)) + int k * int threshold = int (length (cbuf bw)) + n"
    by blast
  from Cons.IH [OF rest a(2)] obtain k' where
    ih: "0 \<le> written rs'" "length (cbuf bw') \<le> threshold" "cidx bw' = cidx bw1 + int k'"
      "int (length (cbuf bw')) + int k' * int threshold = int (length (cbuf bw1)) + written rs'"
    by blast
  have wr: "written rs = n + written rs'"
    by (simp add: rs written_def)
  have "cidx bw' = cidx bw + int (k + k')"
    using ih(3) a(3) by simp
  moreover have "int (length (cbuf bw')) + int (k + k') * int threshold
                   = int (length (cbuf bw)) + written rs"
    using ih(4) a(4) by (simp add: wr algebra_simps)
  ultimately show ?case
    using ih(1,2) a(1) wr by (intro conjI exI [of _ "k + k'"]) simp_all
qed

lemma w_Write_append: "w_Write env (w_Write env bw p) q = w_Write env bw (p @ q)"
  by (simp add: w_Write_def)

lemma performs_writes_small:
  "performs env bw (map DoWrite ps) = Returned rs bw' \<Longrightarrow>
   int (length (cbuf bw)) + written rs < int threshold \<Longrightarrow>
   bw' = w_Write env bw (concat ps) \<and> rs = map (\<lambda>p. WriteResult (int (length p)) None) ps"
proof (induction ps arbitrary: bw rs)
  case Nil
  then show ?case by auto
next
  case (Cons p ps)
  from Cons.prems(1) obtain n err bw1 rs' where
    w: "Write env bw p = Returned (n, err) bw1"
    and rest: "performs env bw1 (map DoWrite ps) = Returned rs' bw'"
    and rs: "rs = WriteResult n err # rs'"
    by (auto split: outcome.splits)
  have wr: "written rs = n + written rs'"
    by (simp add: rs written_def)
  from Write_sizes [OF w] have le1: "length (cbuf bw1) \<le> threshold"
    by blast
  from performs_writes_sizes [OF rest le1] have "0 \<le> written rs'"
    by blast
  with Cons.prems(2) wr have below: "int (length (cbuf bw)) + n < int threshold"
    by simp
  have small: "length (cbuf bw) + length p < threshold"
  proof (rule ccontr)
    assume "\<not> length (cbuf bw) + length p < threshold"
    then have "threshold \<le> length (cbuf bw) + length p" by simp
    from Write_count_lower [OF w this] below show False by simp
  qed
  with w have w1: "n = int (length p)" "err = None" "bw1 = w_Write env bw p"
    by (simp_all add: Write_small)
  have "int (length (cbuf bw1)) + written rs' < int threshold"
    using Cons.prems(2) wr w1 by simp
  from Cons.IH [OF rest this] show ?case
    by (simp add: rs w1 w_Write_append)
qed

lemma is_start_not_whole: "is_start e \<Longrightarrow> \<not> is_whole_object e"
  by (cases e) simp_all

lemma no_whole_object_sendChunk:
  assumes "no_whole_object bw"
  shows "no_whole_object (state_of (sendChunk env bw))"
proof -
  from once_Do_frame(1) [of env bw] obtain es where
    es: "trace (snd (once_Do env bw)) = trace bw @ es" "\<forall>e \<in> set es. is_start e"
    by blast
  from state_of_sendChunk [of env bw]
  consider (same) "state_of (sendChunk env bw) = snd (once_Do env bw)"
    | (sealed) bw2 where "sendChunk env bw = Returned None bw2"
    by blast
  then show ?thesis
  proof cases
    case same
    with assms es show ?thesis
      by (auto simp: no_whole_object_def is_start_not_whole)
  next
    case sealed
    from sendChunk_sent [OF sealed] sealed assms show ?thesis
      by (auto simp: no_whole_object_def is_start_not_whole)
  qed
qed

lemma no_whole_object_Write:
  "no_whole_object bw \<Longrightarrow> no_whole_object (state_of (Write env bw p))"
  by (rule Write_invariant [where P = "\<lambda>env. no_whole_object"])
     (simp_all add: no_whole_object_sendChunk, simp add: no_whole_object_def)

lemma no_whole_object_writes:
  "no_whole_object bw \<Longrightarrow> no_whole_object (state_of (performs env bw (map DoWrite ps)))"
proof (induction ps arbitrary: bw)
  case Nil
  then show ?case by simp
next
  case (Cons p ps)
  from no_whole_object_Write [OF Cons.prems, of env p]
  have w: "no_whole_object (state_of (Write env bw p))" .
  show ?case
  proof (cases "Write env bw p")
    case (Returned r bw1)
    with w Cons.IH [of bw1] show ?thesis
      by (cases r) (auto split: outcome.splits)
  next
    case (Blocked st)
    with w show ?thesis by simp
  next
    case (Panicked st)
    with w show ?thesis by simp
  qed
qed

lemma no_whole_object_Close:
  assumes "no_whole_object bw" and "cidx bw \<noteq> 0"
  shows "no_whole_object (state_of (Close env bw))"
  by (rule Close_invariant [where P = no_whole_object])
     (use assms in \<open>simp_all add: no_whole_object_sendChunk\<close>, simp_all add: no_whole_object_def)

text \<open>The simple path: \<^verbatim>\<open>Close\<close> on a writer that has sealed no chunk.\<close>

lemma Close_simple:
  assumes "\<not> done_w bw" and "cidx bw = 0"
  shows "Close env bw =
           Returned
             (case GetUploadURL env (bucket bw) of
                Inl e \<Rightarrow> Some e
              | Inr ue \<Rightarrow> UploadFile env ue (cbuf bw) (int (length (cbuf bw))) (name bw) (ctype bw)
                            (hex (sha1_Sum env (chsh bw))) (info bw))
             (bw\<lparr>done_w := True,
                 trace := trace bw @ CallGetUploadURL (bucket bw) #
                   (case GetUploadURL env (bucket bw) of
                      Inl e \<Rightarrow> []
                    | Inr ue \<Rightarrow> [CallUploadFile ue (cbuf bw) (int (length (cbuf bw))) (name bw) (ctype bw)
                                    (hex (sha1_Sum env (chsh bw))) (info bw)]),
                 cbuf := (case GetUploadURL env (bucket bw) of
                      Inl e \<Rightarrow> cbuf bw
                    | Inr ue \<Rightarrow> drop (UploadFile_reads env ue (cbuf bw)) (cbuf bw))\<rparr>)"
  using assms
  by (simp add: Close_def finalize_def simpleWriteFile_def emit_def Let_def split: sum.splits)

subsection \<open>Chunk ids\<close>

lemma ids_ok_sendChunk:
  assumes "ids_ok bw"
  shows "ids_ok (state_of (sendChunk env bw))"
proof -
  from once_Do_frame(1) [of env bw] obtain es where
    es: "trace (snd (once_Do env bw)) = trace bw @ es" "\<forall>e \<in> set es. is_start e"
    by blast
  from state_of_sendChunk [of env bw]
  consider (same) "state_of (sendChunk env bw) = snd (once_Do env bw)"
    | (sealed) bw2 where "sendChunk env bw = Returned None bw2"
    by blast
  then show ?thesis
  proof cases
    case same
    with assms es show ?thesis
      by (simp add: ids_ok_def once_Do_frame sent_start)
  next
    case sealed
    from sendChunk_sent [OF sealed] obtain es' where
      "\<forall>e \<in> set es'. is_start e" "trace bw2 = trace bw @ es' @ [ChanSend (sealed env bw)]"
      "cidx bw2 = cidx bw + 1"
      by blast
    moreover from assms have "[1..cidx bw + 1] = [1..cidx bw] @ [cidx bw + 1]"
      by (simp add: ids_ok_def upto_rec2)
    ultimately show ?thesis
      using assms sealed by (simp add: ids_ok_def sent_start sealed_def)
  qed
qed

lemma ids_ok_Write: "ids_ok bw \<Longrightarrow> ids_ok (state_of (Write env bw p))"
  by (rule Write_invariant [where P = "\<lambda>env. ids_ok"])
     (simp_all add: ids_ok_sendChunk, simp add: ids_ok_def)

lemma ids_ok_Close: "ids_ok bw \<Longrightarrow> ids_ok (state_of (Close env bw))"
  by (rule Close_invariant [where P = ids_ok])
     (simp_all add: ids_ok_sendChunk, simp_all add: ids_ok_def)

lemma ids_ok_performs: "ids_ok bw \<Longrightarrow> ids_ok (state_of (performs env bw cs))"
proof (rule performs_invariant [where P = ids_ok])
  fix bw :: "'a Writer" and c
  assume "ids_ok bw"
  then show "ids_ok (state_of (perform env bw c))"
    by (cases c) (simp_all only: state_of_perform ids_ok_Write ids_ok_Close)
qed

subsection \<open>The chunks in the pool\<close>

lemma retry_of_refl [simp]: "retry_of c c"
  by (simp add: retry_of_def)

lemma retry_of_again: "retry_of c0 c \<Longrightarrow> retry_of c0 (c\<lparr>attempt := attempt c + 1\<rparr>)"
  by (simp add: retry_of_def)

lemma become_fields [simp]:
  "offered (become i w s) = offered s"
  "uploaded (become i w s) = uploaded s"
  "channel (become i w s) = channel s"
  "logged (become i w s) = logged s"
  "wg (become i w s) = wg s"
  "large_file (become i w s) = large_file s"
  "workers (become i w s) = (workers s)[i := w]"
  by (simp_all add: become_def)

lemma in_flight_become: "set (in_flight (become i w s)) \<subseteq> set (in_flight s) \<union> set (held w)"
proof -
  have "set ((workers s)[i := w]) \<subseteq> insert w (set (workers s))"
    by (rule set_update_subset_insert)
  then show ?thesis
    by (auto simp: in_flight_def)
qed

lemma in_flight_at: "at s i w \<Longrightarrow> set (held w) \<subseteq> set (in_flight s)"
  using nth_mem [of i "workers s"] by (auto simp: in_flight_def at_def)

lemma in_flight_ghost [simp]:
  "in_flight (s\<lparr>logged := l\<rparr>) = in_flight s"
  "in_flight (s\<lparr>wg := n\<rparr>) = in_flight s"
  "in_flight (s\<lparr>offered := cs\<rparr>) = in_flight s"
  "in_flight (s\<lparr>uploaded := cs\<rparr>) = in_flight s"
  "in_flight (s\<lparr>channel := ch\<rparr>) = in_flight s"
  by (simp_all add: in_flight_def)

lemma pool_ok_ghost [simp]:
  "pool_ok (s\<lparr>logged := l\<rparr>) = pool_ok s"
  "pool_ok (s\<lparr>wg := n\<rparr>) = pool_ok s"
  "pool_ok (s\<lparr>channel := ch\<rparr>) = pool_ok s"
  by (simp_all add: pool_ok_def)

lemma pool_ok_become:
  assumes "pool_ok s" and "\<forall>c \<in> set (held w). \<exists>c0 \<in> set (offered s). retry_of c0 c"
  shows "pool_ok (become i w s)"
  unfolding pool_ok_def
proof
  fix c
  assume "c \<in> set (in_flight (become i w s)) \<union> set (uploaded (become i w s))"
  with in_flight_become [of i w s]
  have "c \<in> set (in_flight s) \<union> set (uploaded s) \<or> c \<in> set (held w)"
    by auto
  with assms show "\<exists>c0 \<in> set (offered (become i w s)). retry_of c0 c"
    by (auto simp: pool_ok_def)
qed

lemma pool_ok_held:
  assumes "pool_ok s" and "at s i w" and "c \<in> set (held w)"
  shows "\<exists>c0 \<in> set (offered s). retry_of c0 c"
  using assms in_flight_at [OF assms(2)] by (auto simp: pool_ok_def)

lemma pool_ok_offered: "pool_ok s \<Longrightarrow> pool_ok (s\<lparr>offered := offered s @ [c]\<rparr>)"
  by (auto simp: pool_ok_def)

lemma pool_ok_uploaded:
  assumes "pool_ok s" and "at s i w" and "c \<in> set (held w)"
  shows "pool_ok (s\<lparr>uploaded := uploaded s @ [c]\<rparr>)"
  using assms(1) pool_ok_held [OF assms] by (auto simp: pool_ok_def)

lemma pool_ok_step:
  assumes "step env s s'" and "pool_ok s"
  shows "pool_ok s'"
  using assms(1)
proof (cases rule: step.cases)
  case (endpoint_error i e)
  with assms(2) show ?thesis by (simp add: pool_ok_become)
next
  case (endpoint_ok i fc)
  with assms(2) show ?thesis by (simp add: pool_ok_become)
next
  case (take i fc c)
  have "pool_ok (s\<lparr>offered := offered s @ [c]\<rparr>)"
    using assms(2) by (rule pool_ok_offered)
  then have "pool_ok (become i (Uploading fc c) (s\<lparr>offered := offered s @ [c]\<rparr>))"
    by (rule pool_ok_become) simp
  with take show ?thesis by simp
next
  case (upload_ok i fc c)
  have "pool_ok (s\<lparr>uploaded := uploaded s @ [c]\<rparr>)"
    using assms(2) upload_ok(2) by (rule pool_ok_uploaded) simp
  then have "pool_ok (become i (Receiving fc) (s\<lparr>uploaded := uploaded s @ [c]\<rparr>))"
    by (rule pool_ok_become) simp
  with upload_ok show ?thesis by simp
next
  case (upload_error i fc c e)
  from pool_ok_held [OF assms(2) upload_error(2), of c]
  obtain c0 where "c0 \<in> set (offered s)" "retry_of c0 c"
    by auto
  then have "\<exists>c0 \<in> set (offered s). retry_of c0 (c\<lparr>attempt := attempt c + 1\<rparr>)"
    by (auto dest: retry_of_again)
  with assms(2) have "pool_ok (become i (Sending fc (c\<lparr>attempt := attempt c + 1\<rparr>)) (s\<lparr>logged := logged s @ [e]\<rparr>))"
    by (intro pool_ok_become) simp_all
  with upload_error show ?thesis by simp
next
  case (resend i fc c j fc')
  from pool_ok_held [OF assms(2) resend(2), of c]
  have c: "\<exists>c0 \<in> set (offered s). retry_of c0 c"
    by simp
  have "pool_ok (become i (Receiving fc) s)"
    using assms(2) by (rule pool_ok_become) simp
  then have "pool_ok (become j (Uploading fc' c) (become i (Receiving fc) s))"
  proof (rule pool_ok_become)
    show "\<forall>c' \<in> set (held (Uploading fc' c)).
            \<exists>c0 \<in> set (offered (become i (Receiving fc) s)). retry_of c0 c'"
      using c by simp
  qed
  with resend show ?thesis by simp
next
  case close
  with assms(2) show ?thesis by simp
next
  case (receive_closed i fc)
  with assms(2) show ?thesis by (simp add: pool_ok_become)
next
  case (send_closed i fc c)
  with assms(2) show ?thesis by (simp add: pool_ok_become)
qed

lemma pool_ok_init: "pool_ok (pool_init lf n)"
  by (simp add: pool_ok_def pool_init_def in_flight_def)

lemma pool_ok_steps: "(step env)\<^sup>*\<^sup>* s s' \<Longrightarrow> pool_ok s \<Longrightarrow> pool_ok s'"
  by (induction rule: rtranclp_induct) (auto intro: pool_ok_step)

subsection \<open>Facts about the concrete inputs\<close>

lemma stub_writer_fresh:
  "stub_writer = (NewWriter stub_env (Bucket ''bucket'') ''object'' ''text/plain'' [])
                   \<lparr>ConcurrentUploads := 0, TotalRetries := 0\<rparr>"
  by (simp add: stub_writer_def NewWriter_def)

lemma stub_env_accepts:
  "StartLargeFile stub_env b nm ct meta = Inr (LargeFile ''large'')"
  "ready_received stub_env c"
  "wg_drains stub_env"
  "FinishLargeFile stub_env lf = None"
  "GetUploadURL stub_env b = Inr (URL ''upload'')"
  "UploadFile stub_env ue d n nm ct digest meta = None"
  by (simp_all add: stub_env_def)

lemma threshold_gt_1: "1 < threshold"
  by (simp add: threshold_def)

lemma stub_writer_fields [simp]:
  "cbuf stub_writer = []" "cidx stub_writer = 0" "trace stub_writer = []" "\<not> done_w stub_writer"
  "\<not> once stub_writer" "ready stub_writer = NilChan" "chsh stub_writer = 0"
  "bucket stub_writer = Bucket ''bucket''" "name stub_writer = ''object''"
  "ctype stub_writer = ''text/plain''" "info stub_writer = []"
  by (simp_all add: stub_writer_def NewWriter_def stub_env_def)

lemma stub_three_bytes:
  "performs env stub_writer [DoWrite [1, 2], DoWrite [3]]
     = Returned [WriteResult 2 None, WriteResult 1 None] (w_Write env stub_writer [1, 2, 3])"
proof -
  have "Write env stub_writer [1, 2] = Returned (2, None) (w_Write env stub_writer [1, 2])"
    by (subst Write_small) (simp_all add: threshold_def)
  moreover have "Write env (w_Write env stub_writer [1, 2]) [3]
                   = Returned (1, None) (w_Write env stub_writer [1, 2, 3])"
    by (subst Write_small) (simp_all add: threshold_def w_Write_append)
  ultimately show ?thesis
    by simp
qed

lemma stub_digest_3: "hex (sha1_Sum stub_env (foldl (sha1_step stub_env) (sha1_New stub_env) [1, 2, 3])) = ''09''"
  by (simp add: stub_env_def hex_def hexdigit_def)

subsection \<open>The part calls replaced\<close>

lemma parts_env_fields [simp]:
  "sha1_New (parts_env u g env) = sha1_New env"
  "sha1_step (parts_env u g env) = sha1_step env"
  "sha1_Sum (parts_env u g env) = sha1_Sum env"
  "GetUploadURL (parts_env u g env) = GetUploadURL env"
  "UploadFile (parts_env u g env) = UploadFile env"
  "UploadFile_reads (parts_env u g env) = UploadFile_reads env"
  "StartLargeFile (parts_env u g env) = StartLargeFile env"
  "FinishLargeFile (parts_env u g env) = FinishLargeFile env"
  "ready_received (parts_env u g env) = ready_received env"
  "wg_drains (parts_env u g env) = wg_drains env"
  "UploadPart (parts_env u g env) = u"
  "GetUploadPartURL (parts_env u g env) = g"
  by (simp_all add: parts_env_def)

subsection \<open>What a worker does after a failure\<close>

lemma at_become:
  "at (become j w s) i w' \<longleftrightarrow> (if i = j then i < length (workers s) \<and> w' = w else at s i w')"
  by (auto simp: at_def)

lemma at_ghost [simp]:
  "at (s\<lparr>logged := l\<rparr>) i w = at s i w"
  "at (s\<lparr>wg := n\<rparr>) i w = at s i w"
  "at (s\<lparr>offered := cs\<rparr>) i w = at s i w"
  "at (s\<lparr>uploaded := cs\<rparr>) i w = at s i w"
  "at (s\<lparr>channel := ch\<rparr>) i w = at s i w"
  by (simp_all add: at_def)

text \<open>A worker whose \<^verbatim>\<open>UploadPart\<close> fails has one step: to the send of the same chunk with
  the attempt counter raised by one. The steps of the others leave it where it is.\<close>

lemma failed_upload_resends:
  assumes here: "at s i (Uploading fc c)" and fails: "UploadPart env fc c = Some e"
    and st: "step env s s'"
  shows "at s' i (Uploading fc c) \<or> at s' i (Sending fc (c\<lparr>attempt := attempt c + 1\<rparr>))"
  using st
proof (cases rule: step.cases)
  case (endpoint_error j e')
  with here fails show ?thesis
    by (auto simp: at_def nth_list_update)
next
  case (endpoint_ok j fc')
  with here fails show ?thesis
    by (auto simp: at_def nth_list_update)
next
  case (take j fc' c')
  with here fails show ?thesis
    by (auto simp: at_def nth_list_update)
next
  case (upload_ok j fc' c')
  with here fails show ?thesis
    by (auto simp: at_def nth_list_update)
next
  case (upload_error j fc' c' e')
  with here fails show ?thesis
    by (auto simp: at_def nth_list_update)
next
  case (resend j fc' c' j' fc'')
  with here fails show ?thesis
    by (auto simp: at_def nth_list_update)
next
  case close
  with here show ?thesis by (simp add: at_def)
next
  case (receive_closed j fc')
  with here fails show ?thesis
    by (auto simp: at_def nth_list_update)
next
  case (send_closed j fc' c')
  with here fails show ?thesis
    by (auto simp: at_def nth_list_update)
qed

text \<open>A worker that has returned takes no further step.\<close>

lemma exited_stays:
  assumes here: "at s i Exited" and st: "step env s s'"
  shows "at s' i Exited"
  using st
proof (cases rule: step.cases)
  case (endpoint_error j e')
  with here show ?thesis
    by (auto simp: at_def nth_list_update)
next
  case (endpoint_ok j fc')
  with here show ?thesis
    by (auto simp: at_def nth_list_update)
next
  case (take j fc' c')
  with here show ?thesis
    by (auto simp: at_def nth_list_update)
next
  case (upload_ok j fc' c')
  with here show ?thesis
    by (auto simp: at_def nth_list_update)
next
  case (upload_error j fc' c' e')
  with here show ?thesis
    by (auto simp: at_def nth_list_update)
next
  case (resend j fc' c' j' fc'')
  with here show ?thesis
    by (auto simp: at_def nth_list_update)
next
  case close
  with here show ?thesis by (simp add: at_def)
next
  case (receive_closed j fc')
  with here show ?thesis
    by (auto simp: at_def nth_list_update)
next
  case (send_closed j fc' c')
  with here show ?thesis
    by (auto simp: at_def nth_list_update)
qed

text \<open>A worker that gets no endpoint has one step, to its return.\<close>

lemma no_endpoint_exits:
  assumes here: "at s i Starting" and fails: "GetUploadPartURL env (large_file s) i = Inl e"
    and st: "step env s s'"
  shows "at s' i Starting \<or> at s' i Exited"
  using st
proof (cases rule: step.cases)
  case (endpoint_error j e')
  with here fails show ?thesis
    by (auto simp: at_def nth_list_update)
next
  case (endpoint_ok j fc')
  with here fails show ?thesis
    by (auto simp: at_def nth_list_update)
next
  case (take j fc' c')
  with here fails show ?thesis
    by (auto simp: at_def nth_list_update)
next
  case (upload_ok j fc' c')
  with here fails show ?thesis
    by (auto simp: at_def nth_list_update)
next
  case (upload_error j fc' c' e')
  with here fails show ?thesis
    by (auto simp: at_def nth_list_update)
next
  case (resend j fc' c' j' fc'')
  with here fails show ?thesis
    by (auto simp: at_def nth_list_update)
next
  case close
  with here show ?thesis by (simp add: at_def)
next
  case (receive_closed j fc')
  with here fails show ?thesis
    by (auto simp: at_def nth_list_update)
next
  case (send_closed j fc' c')
  with here fails show ?thesis
    by (auto simp: at_def nth_list_update)
qed

text \<open>A pool of one worker. While the worker is at the send of a failed chunk, no worker
  is there to receive: the pool's only step is the close of the channel by the writer's
  thread, after it the only step is the panic of the send, and then there is none.\<close>

lemma lone_sender_open:
  assumes "workers s = [Sending fc c]" and "channel s = OpenChan"
  shows "step env s s' \<longleftrightarrow> s' = s\<lparr>channel := ClosedChan\<rparr>"
  using assms by (auto simp: step.simps at_def)

lemma lone_sender_closed:
  assumes "workers s = [Sending fc c]" and "channel s = ClosedChan"
  shows "step env s s' \<longleftrightarrow> s' = become 0 Crashed (s\<lparr>wg := wg s - 1\<rparr>)"
  using assms by (auto simp: step.simps at_def)

lemma lone_crashed: "workers s = [Crashed] \<Longrightarrow> channel s = ClosedChan \<Longrightarrow> \<not> step env s s'"
  by (auto simp: step.simps at_def)

text \<open>Two workers, and the part upload of the first chunk fails: worker 0 is at the
  send of the chunk with the attempt counter raised, and worker 1 is there to receive
  it.\<close>

lemma first_failure:
  assumes fc0: "GetUploadPartURL env lf 0 = Inr fc0" and fc1: "GetUploadPartURL env lf 1 = Inr fc1"
    and fails: "UploadPart env fc0 c0 = Some e"
  shows "\<exists>s. (step env)\<^sup>*\<^sup>* (pool_init lf 2) s
           \<and> at s 0 (Sending fc0 (c0\<lparr>attempt := attempt c0 + 1\<rparr>)) \<and> at s 1 (Receiving fc1)
           \<and> channel s = OpenChan \<and> offered s = [c0] \<and> logged s = [e]"
proof -
  let ?s0 = "pool_init lf 2"
  let ?s1 = "become 0 (Receiving fc0) (?s0\<lparr>wg := wg ?s0 + 1\<rparr>)"
  let ?s2 = "become 1 (Receiving fc1) (?s1\<lparr>wg := wg ?s1 + 1\<rparr>)"
  let ?s3 = "become 0 (Uploading fc0 c0) (?s2\<lparr>offered := offered ?s2 @ [c0]\<rparr>)"
  let ?s4 = "become 0 (Sending fc0 (c0\<lparr>attempt := attempt c0 + 1\<rparr>)) (?s3\<lparr>logged := logged ?s3 @ [e]\<rparr>)"
  have two: "replicate 2 Starting = [Starting, Starting]"
    by (simp add: numeral_2_eq_2)
  have 1: "step env ?s0 ?s1"
    by (rule step.endpoint_ok) (simp_all add: at_def pool_init_def two fc0)
  have 2: "step env ?s1 ?s2"
  proof (rule step.endpoint_ok)
    show "at ?s1 1 Starting"
      by (simp add: at_def pool_init_def two)
    show "GetUploadPartURL env (large_file ?s1) 1 = Inr fc1"
      using fc1 by (simp add: pool_init_def)
  qed
  have 3: "step env ?s2 ?s3"
    by (rule step.take) (simp_all add: at_def pool_init_def two)
  have 4: "step env ?s3 ?s4"
    by (rule step.upload_error) (simp_all add: at_def pool_init_def two fails)
  from 1 2 3 4 have "(step env)\<^sup>*\<^sup>* ?s0 ?s4"
    by (meson rtranclp.rtrancl_into_rtrancl rtranclp.rtrancl_refl)
  moreover have "at ?s4 0 (Sending fc0 (c0\<lparr>attempt := attempt c0 + 1\<rparr>))" "at ?s4 1 (Receiving fc1)"
    "channel ?s4 = OpenChan" "offered ?s4 = [c0]" "logged ?s4 = [e]"
    by (simp_all add: at_def pool_init_def two)
  ultimately show ?thesis
    by blast
qed

subsection \<open>Errors of the session calls\<close>

lemma Write_start_error:
  assumes "\<not> once bw" and "length (cbuf bw) \<le> threshold"
    and "threshold \<le> length (cbuf bw) + length p"
    and "StartLargeFile env (bucket bw) (name bw) (ctype bw) (info bw) = Inl e"
  shows "Write env bw p =
           Returned (int (threshold - length (cbuf bw)), Some e)
             ((emit (CallStartLargeFile (name bw) (ctype bw) (info bw))
                 (w_Write env bw (take (threshold - length (cbuf bw)) p)))\<lparr>once := True\<rparr>)"
proof -
  let ?bw1 = "w_Write env bw (take (threshold - length (cbuf bw)) p)"
  have "once_Do env ?bw1
          = (Some e, (emit (CallStartLargeFile (name bw) (ctype bw) (info bw)) ?bw1)\<lparr>once := True\<rparr>)"
    using assms(1,4) by (simp add: once_Do_def startLargeFile_error)
  then have "sendChunk env ?bw1
          = Returned (Some e) ((emit (CallStartLargeFile (name bw) (ctype bw) (info bw)) ?bw1)\<lparr>once := True\<rparr>)"
    by (simp add: sendChunk_def)
  then show ?thesis
    by (simp add: Write_seal [OF assms(3,2)])
qed

text \<open>The errors that \<^verbatim>\<open>Write\<close> and \<^verbatim>\<open>Close\<close> return are errors of calls made on their own
  thread, whatever the workers do: \<^verbatim>\<open>Write\<close> returns only the error of the start call,
  \<^verbatim>\<open>Close\<close> the error of a call of the simple path, of the start call or of the finish
  call.\<close>

lemma Write_error_origin:
  "Write env bw p = Returned (n, Some e) bw' \<Longrightarrow>
     \<not> once bw \<and> StartLargeFile env (bucket bw) (name bw) (ctype bw) (info bw) = Inl e"
proof (induction env bw p arbitrary: n bw' rule: Write_induct)
  case (small env bw p)
  then show ?case
    by (simp add: Write_small)
next
  case (panic env bw p)
  then show ?case
    by (simp add: Write_panic)
next
  case (seal env bw p)
  let ?bw1 = "w_Write env bw (take (threshold - length (cbuf bw)) p)"
  note unfold = Write_seal [OF seal.hyps, of env]
  show ?case
  proof (cases "sendChunk env ?bw1")
    case (Returned r bw2)
    show ?thesis
    proof (cases r)
      case None
      with Returned have sent: "sendChunk env ?bw1 = Returned None bw2"
        by simp
      from sendChunk_sent [OF sent] have "once bw2"
        by blast
      moreover from seal.prems sent obtain k where
        "Write env bw2 (drop (threshold - length (cbuf bw)) p) = Returned (k, Some e) bw'"
        by (auto simp: unfold split: outcome.splits)
      ultimately show ?thesis
        using seal.IH [OF sent] by blast
    next
      case (Some e')
      with Returned seal.prems have "e' = e"
        by (simp add: unfold)
      with Returned Some sendChunk_error [of env ?bw1 e bw2] show ?thesis
        by simp
    qed
  next
    case (Blocked st)
    with seal.prems show ?thesis by (simp add: unfold)
  next
    case (Panicked st)
    with seal.prems show ?thesis by (simp add: unfold)
  qed
qed

lemma Close_error_origin:
  assumes "Close env bw = Returned (Some e) bw'"
  shows "(cidx bw = 0 \<and>
            (case GetUploadURL env (bucket bw) of
               Inl e' \<Rightarrow> e' = e
             | Inr ue \<Rightarrow> UploadFile env ue (cbuf bw) (int (length (cbuf bw))) (name bw) (ctype bw)
                           (hex (sha1_Sum env (chsh bw))) (info bw) = Some e))
       \<or> (cidx bw \<noteq> 0 \<and> \<not> once bw
            \<and> StartLargeFile env (bucket bw) (name bw) (ctype bw) (info bw) = Inl e)
       \<or> (cidx bw \<noteq> 0 \<and> (\<exists>lf. file_w bw' = Some lf \<and> FinishLargeFile env lf = Some e))"
proof (cases "cidx bw = 0")
  case True
  with assms show ?thesis
    by (auto simp: Close_def finalize_def simpleWriteFile_def Let_def
        split: if_splits sum.splits)
next
  case False
  let ?o = "if 0 < length (cbuf bw) then sendChunk env bw else Returned None bw"
  from assms have nd: "\<not> done_w bw"
    by (auto simp: Close_def split: if_splits)
  show ?thesis
  proof (cases ?o)
    case (Returned r bw1)
    show ?thesis
    proof (cases r)
      case None
      with Returned assms False nd show ?thesis
        by (auto simp: Close_def finalize_def Let_def split: chan.splits if_splits option.splits)
    next
      case (Some e')
      with Returned assms False nd have "e' = e" and "sendChunk env bw = Returned (Some e) bw1"
        by (auto simp: Close_def finalize_def split: if_splits)
      with sendChunk_error [of env bw e bw1] False show ?thesis
        by simp
    qed
  next
    case (Blocked st)
    with assms False nd show ?thesis
      by (auto simp: Close_def finalize_def split: if_splits)
  next
    case (Panicked st)
    with assms False nd show ?thesis
      by (auto simp: Close_def finalize_def split: if_splits)
  qed
qed

lemma Close_serving_trace:
  assumes "serving env lf bw" and "cidx bw \<noteq> 0" and "wg_drains env"
  shows "\<exists>bw'. Close env bw = Returned (FinishLargeFile env lf) bw'
           \<and> trace bw' = trace bw @ (if cbuf bw = [] then [] else [ChanSend (sealed env bw)])
                            @ [ChanClose, CallFinishLargeFile lf]"
proof -
  from assms have nd: "\<not> done_w bw" and once: "once bw" and ready: "ready bw = OpenChan"
    and lfile: "file_w bw = Some lf"
    by (auto simp: serving_def split: if_splits)
  show ?thesis
  proof (cases "cbuf bw = []")
    case True
    with assms(2,3) nd ready lfile show ?thesis
      by (simp add: Close_def finalize_def Let_def)
  next
    case False
    from sendChunk_serving [OF assms(1)] obtain bw2 where
      bw2: "sendChunk env bw = Returned None bw2" "serving env lf bw2"
      by blast
    from sendChunk_sent [OF bw2(1)] once
    have t: "trace bw2 = trace bw @ [ChanSend (sealed env bw)]" "ready bw2 = OpenChan" "once bw2"
      by auto
    from bw2(2) t(3) have "file_w bw2 = Some lf"
      by (simp add: serving_def)
    with False assms(2,3) nd bw2(1) t show ?thesis
      by (simp add: Close_def finalize_def Let_def)
  qed
qed

subsection \<open>Runs on the concrete inputs\<close>

lemma serving_stub:
  assumes "StartLargeFile env (Bucket ''bucket'') ''object'' ''text/plain'' [] = Inr lf"
    and "\<And>c. ready_received env c"
  shows "serving env lf (stub_writer\<lparr>ConcurrentUploads := cu\<rparr>)"
  using assms by (simp add: serving_def stub_writer_def NewWriter_def)

lemma one_full_chunk:
  assumes "serving env lf bw" and "cbuf bw = []" and "sent (trace bw) = []"
    and "length p = threshold" and "cidx bw = 0"
  shows "length (sent (trace (state_of (performs env bw [DoWrite p, DoClose])))) = 1"
proof -
  from Write_serving [OF assms(1), of p] assms(2) threshold_pos obtain bw1 where
    w: "Write env bw p = Returned (int (length p), None) bw1" "serving env lf bw1"
      "length (cbuf bw1) < threshold"
    by auto
  from Write_accounting [OF w(1)] assms(3) obtain cs where
    a: "taken bw1 = taken bw @ p" "sent (trace bw1) = cs" "cidx bw1 = cidx bw + int (length cs)"
      "\<forall>c \<in> set cs. length (buf c) = threshold \<and> size_chunk c = int threshold"
    by auto
  from taken_sizes [of bw1 bw cs] a assms(2,3)
  have eq: "threshold = length cs * threshold + length (cbuf bw1)"
    by (simp add: assms(4))
  have one: "length cs = 1"
  proof (cases "length cs")
    case 0
    with eq w(3) show ?thesis by simp
  next
    case (Suc m)
    with eq have "m * threshold = 0" by simp
    with threshold_pos Suc show ?thesis by simp
  qed
  with eq have empty: "cbuf bw1 = []"
    by simp
  have nz: "cidx bw1 \<noteq> 0"
    using a(3) one assms(5) by simp
  from Close_serving [OF w(2) nz] a(2) empty
  have "sent (trace (state_of (Close env bw1))) = cs"
    by simp
  moreover have "state_of (performs env bw [DoWrite p, DoClose]) = state_of (Close env bw1)"
    using w(1) by (simp split: outcome.splits)
  ultimately show ?thesis
    using one by simp
qed

lemma no_whole_object_handed_over: "no_whole_object bw \<Longrightarrow> \<not> handed_over bw"
proof
  assume n: "no_whole_object bw" and "handed_over bw"
  then obtain e where e: "e \<in> set (trace bw)" "is_upload e"
    by (auto simp: handed_over_def list_ex_iff)
  from e(2) have "is_whole_object e"
    by (cases e) simp_all
  with n e(1) show False
    by (simp add: no_whole_object_def)
qed

lemma stub_env_reads: "UploadFile_reads stub_env ue d = length d"
  by (simp add: stub_env_def)

lemma stub_full_chunk_run:
  "\<exists>bw'. performs stub_env stub_writer [DoWrite (replicate threshold 7), DoClose]
            = Returned [WriteResult (int threshold) None, CloseResult None] bw'
        \<and> no_whole_object bw'"
proof -
  let ?lf = "LargeFile ''large''"
  let ?p = "replicate threshold (7 :: byte)"
  have s0: "serving stub_env ?lf stub_writer"
    using serving_stub [of stub_env ?lf "ConcurrentUploads stub_writer"]
    by (simp add: stub_env_accepts)
  from Write_serving [OF s0, of ?p] threshold_pos obtain bw1 where
    w: "Write stub_env stub_writer ?p = Returned (int threshold, None) bw1"
      "serving stub_env ?lf bw1" "length (cbuf bw1) < threshold"
    by (auto simp: stub_writer_fields)
  from Write_sizes [OF w(1)] obtain k where
    k: "cidx bw1 = int k" "int (length (cbuf bw1)) + int k * int threshold = int threshold"
    by (auto simp: stub_writer_fields)
  have "k \<noteq> 0"
  proof
    assume "k = 0"
    with k(2) w(3) show False by simp
  qed
  with k(1) have nz: "cidx bw1 \<noteq> 0" by simp
  have "wg_drains stub_env"
    by (simp add: stub_env_def)
  from Close_serving_trace [OF w(2) nz this] obtain bw' where
    c: "Close stub_env bw1 = Returned (FinishLargeFile stub_env ?lf) bw'"
    by blast
  have "no_whole_object stub_writer"
    by (simp add: no_whole_object_def stub_writer_fields)
  from no_whole_object_Write [OF this, of stub_env ?p] w(1) have "no_whole_object bw1"
    by simp
  from no_whole_object_Close [OF this nz, of stub_env] c have "no_whole_object bw'"
    by simp
  with w(1) c show ?thesis
    by (simp add: stub_env_def)
qed

lemma env_fields:
  "StartLargeFile start_down_env b nm ct meta = Inl ''start failed''"
  "StartLargeFile finish_fails_env b nm ct meta = Inr (LargeFile ''large'')"
  "ready_received finish_fails_env c"
  "wg_drains finish_fails_env"
  "FinishLargeFile finish_fails_env lf = Some ''finish failed''"
  "StartLargeFile endpoint_down_env b nm ct meta = Inr (LargeFile ''large'')"
  "ready_received endpoint_down_env c"
  "wg_drains endpoint_down_env"
  "FinishLargeFile endpoint_down_env lf = None"
  "GetUploadPartURL endpoint_down_env lf 0 = Inl ''no endpoint''"
  "GetUploadPartURL endpoint_down_env lf (Suc i) = Inr (FileChunk (Suc i))"
  "GetUploadPartURL part_fails_env lf i = Inr (FileChunk i)"
  "UploadPart part_fails_env fc c = Some ''part failed''"
  by (simp_all add: start_down_env_def finish_fails_env_def endpoint_down_env_def part_fails_env_def
      stub_env_def)

lemma pool_init_2:
  "workers (pool_init lf 2) = [Starting, Starting]" "logged (pool_init lf 2) = []"
  "large_file (pool_init lf 2) = lf"
  by (simp_all add: pool_init_def numeral_2_eq_2)

text \<open>The chunk of \<open>threshold\<close> bytes \<open>7\<close> that a new writer seals; the \<^verbatim>\<open>Write\<close> that
  seals it with one worker and with two; the \<^verbatim>\<open>Close\<close> that follows; and runs of the two
  pools.\<close>

lemma full_chunk_sealed:
  assumes "sha1_New env = sha1_New stub_env" "sha1_step env = sha1_step stub_env" "sha1_Sum env = sha1_Sum stub_env"
    and "cidx bw = 0" and "cbuf bw = []" and "chsh bw = sha1_New stub_env"
  shows "sealed env (w_Write env bw (replicate threshold 7)) = full_chunk"
  using assms by (simp add: sealed_def full_chunk_def)

lemma single_worker_write:
  "Write part_fails_env stub_writer (replicate threshold 7)
     = Returned (int threshold, None)
         (stub_writer\<lparr>ConcurrentUploads := 1, ready := OpenChan, once := True,
            file_w := Some (LargeFile ''large''), cidx := 1,
            trace := [CallStartLargeFile ''object'' ''text/plain'' [], Go 0, ChanSend full_chunk]\<rparr>)"
proof -
  let ?p = "replicate threshold (7 :: byte)"
  let ?bw1 = "w_Write part_fails_env stub_writer ?p"
  have c: "sealed part_fails_env ?bw1 = full_chunk"
    by (rule full_chunk_sealed) (simp_all add: part_fails_env_def stub_env_def)
  have s: "sendChunk part_fails_env ?bw1
      = Returned None
         (stub_writer\<lparr>ConcurrentUploads := 1, ready := OpenChan, once := True,
            file_w := Some (LargeFile ''large''), cidx := 1,
            trace := [CallStartLargeFile ''object'' ''text/plain'' [], Go 0, ChanSend full_chunk]\<rparr>)"
    unfolding c [symmetric]
    by (simp add: sendChunk_def once_Do_def startLargeFile_def Let_def thread_def emit_def
        sealed_def w_Write_def stub_writer_def NewWriter_def part_fails_env_def parts_env_def stub_env_def)
  from Write_seal [of stub_writer ?p part_fails_env] threshold_pos show ?thesis
    by (simp add: s Write_small w_Write_Nil)
qed

lemma single_worker_run:
  "(step part_fails_env)\<^sup>*\<^sup>* (pool_init (LargeFile ''large'') 1) stalled_pool"
proof -
  let ?lf = "LargeFile ''large''"
  let ?s0 = "pool_init ?lf 1"
  let ?s1 = "become 0 (Receiving (FileChunk 0)) (?s0\<lparr>wg := wg ?s0 + 1\<rparr>)"
  let ?s2 = "become 0 (Uploading (FileChunk 0) full_chunk) (?s1\<lparr>offered := offered ?s1 @ [full_chunk]\<rparr>)"
  let ?s3 = "become 0 (Sending (FileChunk 0) (full_chunk\<lparr>attempt := attempt full_chunk + 1\<rparr>))
               (?s2\<lparr>logged := logged ?s2 @ [''part failed'']\<rparr>)"
  have 1: "step part_fails_env ?s0 ?s1"
    by (rule step.endpoint_ok) (simp_all add: at_def pool_init_def env_fields)
  have 2: "step part_fails_env ?s1 ?s2"
    by (rule step.take) (simp_all add: at_def pool_init_def)
  have 3: "step part_fails_env ?s2 ?s3"
    by (rule step.upload_error) (simp_all add: at_def pool_init_def env_fields)
  have att: "attempt full_chunk = 0"
    by (simp add: full_chunk_def)
  have eq: "?s3 = stalled_pool"
    by (simp add: stalled_pool_def pool_init_def become_def att)
  have "(step part_fails_env)\<^sup>*\<^sup>* ?s0 ?s1"
    using 1 by (rule r_into_rtranclp [of "step part_fails_env"])
  then have "(step part_fails_env)\<^sup>*\<^sup>* ?s0 ?s2"
    using 2 by (rule rtranclp.rtrancl_into_rtrancl)
  then have "(step part_fails_env)\<^sup>*\<^sup>* ?s0 ?s3"
    using 3 by (rule rtranclp.rtrancl_into_rtrancl)
  then show ?thesis
    unfolding eq .
qed

lemma stalled_steps:
  "{s. step part_fails_env stalled_pool s} = {stalled_pool\<lparr>channel := ClosedChan\<rparr>}"
  "{s. step part_fails_env (stalled_pool\<lparr>channel := ClosedChan\<rparr>) s}
     = {stalled_pool\<lparr>channel := ClosedChan, workers := [Crashed], wg := 0\<rparr>}"
  "{s. step part_fails_env (stalled_pool\<lparr>channel := ClosedChan, workers := [Crashed], wg := 0\<rparr>) s} = {}"
proof -
  have w: "workers stalled_pool = [Sending (FileChunk 0) (full_chunk\<lparr>attempt := 1\<rparr>)]"
    and c: "channel stalled_pool = OpenChan" and g: "wg stalled_pool = 1"
    by (simp_all add: stalled_pool_def)
  show "{s. step part_fails_env stalled_pool s} = {stalled_pool\<lparr>channel := ClosedChan\<rparr>}"
    by (simp add: lone_sender_open [OF w c])
  have "step part_fails_env (stalled_pool\<lparr>channel := ClosedChan\<rparr>) s
      \<longleftrightarrow> s = stalled_pool\<lparr>channel := ClosedChan, workers := [Crashed], wg := 0\<rparr>" for s
    by (subst lone_sender_closed [where fc = "FileChunk 0" and c = "full_chunk\<lparr>attempt := 1\<rparr>"])
       (simp_all add: become_def stalled_pool_def)
  then show "{s. step part_fails_env (stalled_pool\<lparr>channel := ClosedChan\<rparr>) s}
     = {stalled_pool\<lparr>channel := ClosedChan, workers := [Crashed], wg := 0\<rparr>}"
    by simp
  show "{s. step part_fails_env (stalled_pool\<lparr>channel := ClosedChan, workers := [Crashed], wg := 0\<rparr>) s} = {}"
    by (simp add: lone_crashed)
qed

lemma two_worker_write:
  "Write endpoint_down_env (stub_writer\<lparr>ConcurrentUploads := 2\<rparr>) (replicate threshold 7)
     = Returned (int threshold, None)
         (stub_writer\<lparr>ConcurrentUploads := 2, ready := OpenChan, once := True,
            file_w := Some (LargeFile ''large''), cidx := 1,
            trace := [CallStartLargeFile ''object'' ''text/plain'' [], Go 0, Go 1, ChanSend full_chunk]\<rparr>)"
proof -
  let ?p = "replicate threshold (7 :: byte)"
  let ?bw1 = "w_Write endpoint_down_env (stub_writer\<lparr>ConcurrentUploads := 2\<rparr>) ?p"
  have c: "sealed endpoint_down_env ?bw1 = full_chunk"
    by (rule full_chunk_sealed) (simp_all add: endpoint_down_env_def stub_env_def)
  have s: "sendChunk endpoint_down_env ?bw1
      = Returned None
         (stub_writer\<lparr>ConcurrentUploads := 2, ready := OpenChan, once := True,
            file_w := Some (LargeFile ''large''), cidx := 1,
            trace := [CallStartLargeFile ''object'' ''text/plain'' [], Go 0, Go 1, ChanSend full_chunk]\<rparr>)"
    unfolding c [symmetric]
    by (simp add: sendChunk_def once_Do_def startLargeFile_def Let_def thread_def emit_def
        sealed_def w_Write_def stub_writer_def NewWriter_def endpoint_down_env_def parts_env_def
        stub_env_def numeral_2_eq_2)
  from Write_seal [of "stub_writer\<lparr>ConcurrentUploads := 2\<rparr>" ?p endpoint_down_env] threshold_pos
  show ?thesis
    by (simp add: s Write_small w_Write_Nil)
qed

lemma two_worker_close:
  "Close endpoint_down_env
     (stub_writer\<lparr>ConcurrentUploads := 2, ready := OpenChan, once := True,
        file_w := Some (LargeFile ''large''), cidx := 1,
        trace := [CallStartLargeFile ''object'' ''text/plain'' [], Go 0, Go 1, ChanSend full_chunk]\<rparr>)
   = Returned None
       (stub_writer\<lparr>ConcurrentUploads := 2, ready := ClosedChan, once := True, done_w := True,
          file_w := Some (LargeFile ''large''), cidx := 1,
          trace := [CallStartLargeFile ''object'' ''text/plain'' [], Go 0, Go 1, ChanSend full_chunk,
                    ChanClose, CallFinishLargeFile (LargeFile ''large'')]\<rparr>)"
  by (simp add: Close_def finalize_def Let_def emit_def env_fields)

lemma two_worker_run:
  "(step endpoint_down_env)\<^sup>*\<^sup>* (pool_init (LargeFile ''large'') 2)
     \<lparr>large_file = LargeFile ''large'', workers = [Exited, Exited], channel = ClosedChan, wg = 0,
      logged = [''no endpoint''], offered = [full_chunk], uploaded = [full_chunk]\<rparr>"
proof -
  let ?lf = "LargeFile ''large''"
  let ?fc = "FileChunk 1"
  let ?s0 = "pool_init ?lf 2"
  let ?s1 = "become 0 Exited (?s0\<lparr>logged := logged ?s0 @ [''no endpoint'']\<rparr>)"
  let ?s2 = "become 1 (Receiving ?fc) (?s1\<lparr>wg := wg ?s1 + 1\<rparr>)"
  let ?s3 = "become 1 (Uploading ?fc full_chunk) (?s2\<lparr>offered := offered ?s2 @ [full_chunk]\<rparr>)"
  let ?s4 = "become 1 (Receiving ?fc) (?s3\<lparr>uploaded := uploaded ?s3 @ [full_chunk]\<rparr>)"
  let ?s5 = "?s4\<lparr>channel := ClosedChan\<rparr>"
  let ?s6 = "become 1 Exited (?s5\<lparr>wg := wg ?s5 - 1\<rparr>)"
  have two: "replicate 2 Starting = [Starting, Starting]"
    by (simp add: numeral_2_eq_2)
  have 1: "step endpoint_down_env ?s0 ?s1"
    by (rule step.endpoint_error) (simp_all add: at_def pool_init_def two env_fields)
  have 2: "step endpoint_down_env ?s1 ?s2"
  proof (rule step.endpoint_ok)
    show "at ?s1 1 Starting"
      by (simp add: at_def pool_init_def two)
    show "GetUploadPartURL endpoint_down_env (large_file ?s1) 1 = Inr ?fc"
      using env_fields(11) [of ?lf 0] by (simp add: pool_init_def)
  qed
  have 3: "step endpoint_down_env ?s2 ?s3"
    by (rule step.take) (simp_all add: at_def pool_init_def two)
  have 4: "step endpoint_down_env ?s3 ?s4"
    by (rule step.upload_ok) (simp_all add: at_def pool_init_def two endpoint_down_env_def stub_env_def)
  have 5: "step endpoint_down_env ?s4 ?s5"
    by (rule step.close) (simp add: pool_init_def)
  have 6: "step endpoint_down_env ?s5 ?s6"
    by (rule step.receive_closed [where fc = ?fc]) (simp_all add: at_def pool_init_def two)
  have eq: "?s6 = \<lparr>large_file = ?lf, workers = [Exited, Exited], channel = ClosedChan, wg = 0,
      logged = [''no endpoint''], offered = [full_chunk], uploaded = [full_chunk]\<rparr>"
    by (simp add: pool_init_def become_def two)
  have "(step endpoint_down_env)\<^sup>*\<^sup>* ?s0 ?s1"
    using 1 by (rule r_into_rtranclp [of "step endpoint_down_env"])
  then have "(step endpoint_down_env)\<^sup>*\<^sup>* ?s0 ?s2"
    using 2 by (rule rtranclp.rtrancl_into_rtrancl)
  then have "(step endpoint_down_env)\<^sup>*\<^sup>* ?s0 ?s3"
    using 3 by (rule rtranclp.rtrancl_into_rtrancl)
  then have "(step endpoint_down_env)\<^sup>*\<^sup>* ?s0 ?s4"
    using 4 by (rule rtranclp.rtrancl_into_rtrancl)
  then have "(step endpoint_down_env)\<^sup>*\<^sup>* ?s0 ?s5"
    using 5 by (rule rtranclp.rtrancl_into_rtrancl)
  then have "(step endpoint_down_env)\<^sup>*\<^sup>* ?s0 ?s6"
    using 6 by (rule rtranclp.rtrancl_into_rtrancl)
  then show ?thesis
    unfolding eq .
qed

lemma Close_url_down:
  "Close url_down_env stub_writer
     = Returned (Some ''unavailable'')
         (stub_writer\<lparr>done_w := True, trace := [CallGetUploadURL (Bucket ''bucket'')]\<rparr>)"
  by (subst Close_simple) (simp_all add: url_down_env_def)

subsection \<open>A total of exactly threshold bytes\<close>

text \<open>\<^verbatim>\<open>Write\<close> seals when \<^verbatim>\<open>len(p) < left\<close> is false, so a buffer that is filled exactly
  is sealed at once: a new writer given exactly \<open>threshold\<close> bytes starts a large file,
  hands over one full chunk and is left with an empty buffer, and \<^verbatim>\<open>Close\<close> then takes
  the multi-part path.\<close>

lemma exactly_threshold_is_sealed:
  assumes "StartLargeFile env b nm ct meta = Inr lf" and "\<forall>c. ready_received env c"
    and "length p = threshold"
  shows "\<exists>bw. Write env ((NewWriter env b nm ct meta)\<lparr>ConcurrentUploads := cu, TotalRetries := tr\<rparr>) p
                = Returned (int threshold, None) bw
           \<and> cidx bw = 1 \<and> cbuf bw = [] \<and> once bw
           \<and> (\<forall>e \<in> set (trace (state_of (Close env bw))). \<not> is_whole_object e)"
proof -
  let ?bw0 = "(NewWriter env b nm ct meta)\<lparr>ConcurrentUploads := cu, TotalRetries := tr\<rparr>"
  have s0: "serving env lf ?bw0"
    using assms(1,2) by (simp add: serving_new)
  have new: "cbuf ?bw0 = []" "cidx ?bw0 = 0" "trace ?bw0 = []"
    by (simp_all add: NewWriter_def)
  from Write_serving [OF s0, of p] new(1) threshold_pos obtain bw where
    w: "Write env ?bw0 p = Returned (int threshold, None) bw" "serving env lf bw"
      "length (cbuf bw) < threshold"
    by (auto simp: assms(3))
  from Write_sizes [OF w(1)] new obtain k where
    k: "cidx bw = int k" "int (length (cbuf bw)) + int k * int threshold = int threshold"
    by auto
  have k1: "k = 1"
  proof (cases k)
    case 0
    with k(2) w(3) show ?thesis by simp
  next
    case (Suc m)
    with k(2) have "int (length (cbuf bw)) + int m * int threshold = 0"
      by (simp add: algebra_simps)
    then have "m * threshold = 0"
      by (metis add_is_0 of_nat_0_eq_iff of_nat_add of_nat_mult)
    with threshold_pos Suc show ?thesis by simp
  qed
  with k have c: "cidx bw = 1" "cbuf bw = []"
    by simp_all
  with w(2) have o: "once bw"
    by (simp add: serving_def)
  have "no_whole_object ?bw0"
    by (simp add: no_whole_object_def new)
  from no_whole_object_Write [OF this, of env p] w(1) have "no_whole_object bw"
    by simp
  from no_whole_object_Close [OF this, of env] c(1)
  have "\<forall>e \<in> set (trace (state_of (Close env bw))). \<not> is_whole_object e"
    by (simp add: no_whole_object_def)
  with w(1) c o show ?thesis
    by blast
qed

section \<open>The properties\<close>

text \<open>
  C1, as amended. A new writer has returned from a sequence of \<^verbatim>\<open>Write\<close> calls, and \<open>rs\<close>
  are their results. If the counts returned add up to less than \<open>threshold\<close>, nothing has
  happened towards the service, and \<^verbatim>\<open>Close\<close> takes the simple path: it asks once for
  an upload URL and, if it gets one, issues exactly one whole-object upload of the bytes
  written with their digest, returning what the upload returns; if it gets none it
  returns that error and issues no upload. No multi-part call is made. If the counts add
  up to more than \<open>threshold\<close>, a chunk has been sealed and the trace after \<^verbatim>\<open>Close\<close> holds no
  call of the simple path. Nothing is said about a total of exactly \<open>threshold\<close>.
\<close>

theorem path_selection:
  assumes run: "performs env
                  ((NewWriter env b nm ct meta)\<lparr>ConcurrentUploads := cu, TotalRetries := tr\<rparr>)
                  (map DoWrite ps) = Returned rs bw"
  shows "(written rs < int threshold \<longrightarrow>
            trace bw = [] \<and> cbuf bw = concat ps \<and>
            (\<exists>bw'. Close env bw =
                Returned
                  (case GetUploadURL env b of
                     Inl e \<Rightarrow> Some e
                   | Inr ue \<Rightarrow> UploadFile env ue (concat ps) (int (length (concat ps))) nm ct
                       (hex (sha1_Sum env (foldl (sha1_step env) (sha1_New env) (concat ps)))) meta)
                  bw'
              \<and> trace bw' = CallGetUploadURL b #
                  (case GetUploadURL env b of
                     Inl e \<Rightarrow> []
                   | Inr ue \<Rightarrow> [CallUploadFile ue (concat ps) (int (length (concat ps))) nm ct
                       (hex (sha1_Sum env (foldl (sha1_step env) (sha1_New env) (concat ps)))) meta])))
       \<and> (int threshold < written rs \<longrightarrow>
            0 < cidx bw \<and> (\<forall>e \<in> set (trace (state_of (Close env bw))). \<not> is_whole_object e))"
proof (intro conjI impI)
  let ?bw0 = "(NewWriter env b nm ct meta)\<lparr>ConcurrentUploads := cu, TotalRetries := tr\<rparr>"
  have new: "cbuf ?bw0 = []" "cidx ?bw0 = 0" "trace ?bw0 = []" "\<not> done_w ?bw0"
    "chsh ?bw0 = sha1_New env" "bucket ?bw0 = b" "name ?bw0 = nm" "ctype ?bw0 = ct" "info ?bw0 = meta"
    by (simp_all add: NewWriter_def)
  {
    assume "written rs < int threshold"
    with performs_writes_small [OF run] new(1)
    have bw: "bw = w_Write env ?bw0 (concat ps)"
      by simp
    then have f: "cbuf bw = concat ps" "cidx bw = 0" "trace bw = []" "\<not> done_w bw"
      "chsh bw = foldl (sha1_step env) (sha1_New env) (concat ps)"
      "bucket bw = b" "name bw = nm" "ctype bw = ct" "info bw = meta"
      using new by simp_all
    show "trace bw = []" by (rule f(3))
    show "cbuf bw = concat ps" by (rule f(1))
    show "\<exists>bw'. Close env bw =
                Returned
                  (case GetUploadURL env b of
                     Inl e \<Rightarrow> Some e
                   | Inr ue \<Rightarrow> UploadFile env ue (concat ps) (int (length (concat ps))) nm ct
                       (hex (sha1_Sum env (foldl (sha1_step env) (sha1_New env) (concat ps)))) meta)
                  bw'
              \<and> trace bw' = CallGetUploadURL b #
                  (case GetUploadURL env b of
                     Inl e \<Rightarrow> []
                   | Inr ue \<Rightarrow> [CallUploadFile ue (concat ps) (int (length (concat ps))) nm ct
                       (hex (sha1_Sum env (foldl (sha1_step env) (sha1_New env) (concat ps)))) meta])"
      using Close_simple [OF f(4) f(2), of env, unfolded f] by simp
  }
  {
    assume big: "int threshold < written rs"
    from performs_writes_sizes [OF run] new(1,2) threshold_pos obtain k where
      k: "length (cbuf bw) \<le> threshold" "cidx bw = int k"
        "int (length (cbuf bw)) + int k * int threshold = written rs"
      by auto
    have "k \<noteq> 0"
    proof
      assume "k = 0"
      with k(3) have "written rs = int (length (cbuf bw))" by simp
      with big k(1) show False by simp
    qed
    with k(2) show pos: "0 < cidx bw"
      by simp
    have "no_whole_object ?bw0"
      by (simp add: no_whole_object_def new)
    from no_whole_object_writes [OF this, of env ps] run have "no_whole_object bw"
      by simp
    from no_whole_object_Close [OF this, of env] pos
    show "\<forall>e \<in> set (trace (state_of (Close env bw))). \<not> is_whole_object e"
      by (simp add: no_whole_object_def)
  }
qed

theorem path_selection_witness:
  "(\<exists>bw'. Close stub_env (w_Write stub_env stub_writer [1, 2, 3]) = Returned None bw'
       \<and> trace bw' = [CallGetUploadURL (Bucket ''bucket''),
                       CallUploadFile (URL ''upload'') [1, 2, 3] 3 ''object'' ''text/plain'' ''09'' []])
   \<and> (\<exists>bw. performs stub_env stub_writer [DoWrite (replicate (Suc threshold) 7)]
              = Returned [WriteResult (int (Suc threshold)) None] bw
         \<and> 0 < cidx bw
         \<and> filter is_whole_object (trace (state_of (Close stub_env bw))) = [])"
proof
  have run: "performs stub_env
               ((NewWriter stub_env (Bucket ''bucket'') ''object'' ''text/plain'' [])
                  \<lparr>ConcurrentUploads := 0, TotalRetries := 0\<rparr>)
               (map DoWrite [[1, 2], [3]])
             = Returned [WriteResult 2 None, WriteResult 1 None] (w_Write stub_env stub_writer [1, 2, 3])"
    using stub_three_bytes [of stub_env] by (simp add: stub_writer_fresh)
  have "written [WriteResult 2 None, WriteResult 1 None] < int threshold"
    by (simp add: written_def threshold_def)
  with path_selection [OF run]
  show "\<exists>bw'. Close stub_env (w_Write stub_env stub_writer [1, 2, 3]) = Returned None bw'
       \<and> trace bw' = [CallGetUploadURL (Bucket ''bucket''),
                       CallUploadFile (URL ''upload'') [1, 2, 3] 3 ''object'' ''text/plain'' ''09'' []]"
    using stub_digest_3 by (simp add: stub_env_accepts)
next
  have s0: "serving stub_env (LargeFile ''large'') stub_writer"
    unfolding stub_writer_fresh by (rule serving_new) (simp_all add: stub_env_accepts)
  from performs_writes_serving [OF s0, of "[replicate (Suc threshold) 7]"] threshold_pos
  obtain bw where
    run: "performs stub_env stub_writer (map DoWrite [replicate (Suc threshold) 7])
            = Returned [WriteResult (int (Suc threshold)) None] bw"
    by auto
  have "int threshold < written [WriteResult (int (Suc threshold)) None]"
    by (simp add: written_def)
  with path_selection [OF run [unfolded stub_writer_fresh]]
  have "0 < cidx bw" "\<forall>e \<in> set (trace (state_of (Close stub_env bw))). \<not> is_whole_object e"
    by simp_all
  with run show "\<exists>bw. performs stub_env stub_writer [DoWrite (replicate (Suc threshold) 7)]
              = Returned [WriteResult (int (Suc threshold)) None] bw
         \<and> 0 < cidx bw
         \<and> filter is_whole_object (trace (state_of (Close stub_env bw))) = []"
    by (auto simp: filter_empty_conv)
qed

text \<open>The upload URL cannot be obtained: three bytes were written, \<^verbatim>\<open>Close\<close> takes the
  simple path and returns the error without a whole-object upload request.\<close>

theorem path_selection_counterexample:
  "written [WriteResult 2 None, WriteResult 1 None] \<le> int threshold
   \<and> performs url_down_env stub_writer [DoWrite [1, 2], DoWrite [3]]
       = Returned [WriteResult 2 None, WriteResult 1 None] (w_Write url_down_env stub_writer [1, 2, 3])
   \<and> Close url_down_env (w_Write url_down_env stub_writer [1, 2, 3])
       = Returned (Some ''unavailable'')
           ((w_Write url_down_env stub_writer [1, 2, 3])
              \<lparr>done_w := True, trace := [CallGetUploadURL (Bucket ''bucket'')]\<rparr>)
   \<and> length (filter is_upload [CallGetUploadURL (Bucket ''bucket'')]) \<noteq> 1"
proof -
  have "Close url_down_env (w_Write url_down_env stub_writer [1, 2, 3])
       = Returned (Some ''unavailable'')
           ((w_Write url_down_env stub_writer [1, 2, 3])
              \<lparr>done_w := True, trace := [CallGetUploadURL (Bucket ''bucket'')]\<rparr>)"
    by (subst Close_simple) (simp_all add: url_down_env_def)
  moreover have "written [WriteResult 2 None, WriteResult 1 None] \<le> int threshold"
    by (simp add: written_def threshold_def)
  moreover have "length (filter is_upload [CallGetUploadURL (Bucket ''bucket'')]) \<noteq> 1"
    by simp
  moreover note stub_three_bytes [of url_down_env]
  ultimately show ?thesis
    by (intro conjI)
qed

text \<open>
  C2, as amended. An error of the start call is the error the triggering \<^verbatim>\<open>Write\<close>
  returns, with the count of the bytes taken before the seal, and the call is made once.
  An error of the finish call is what \<^verbatim>\<open>Close\<close> returns, and the call is made once. An
  error obtaining a part endpoint is not surfaced: the worker that made the call logs it
  and returns, which is the only step it has, and a worker that has returned takes no
  further step. An error that \<^verbatim>\<open>Write\<close> returns is the error of the start call, and an
  error that \<^verbatim>\<open>Close\<close> returns is the error of a call of the simple path, of the start
  call or of the finish call: each is the answer to a call made on the caller's own thread.
\<close>

theorem session_errors:
  "(\<not> once bw \<and> length (cbuf bw) \<le> threshold \<and> threshold \<le> length (cbuf bw) + length p
      \<and> StartLargeFile env (bucket bw) (name bw) (ctype bw) (info bw) = Inl e \<longrightarrow>
      (\<exists>bw'. Write env bw p = Returned (int (threshold - length (cbuf bw)), Some e) bw'
         \<and> trace bw' = trace bw @ [CallStartLargeFile (name bw) (ctype bw) (info bw)]))
   \<and> (serving env lf bw \<and> cidx bw \<noteq> 0 \<and> wg_drains env \<longrightarrow>
      (\<exists>bw'. Close env bw = Returned (FinishLargeFile env lf) bw'
         \<and> trace bw' = trace bw @ (if cbuf bw = [] then [] else [ChanSend (sealed env bw)])
                          @ [ChanClose, CallFinishLargeFile lf]))
   \<and> (\<forall>n bw'. Write env bw p = Returned (n, Some e) bw' \<longrightarrow>
         \<not> once bw \<and> StartLargeFile env (bucket bw) (name bw) (ctype bw) (info bw) = Inl e)
   \<and> (\<forall>bw'. Close env bw = Returned (Some e) bw' \<longrightarrow>
         (cidx bw = 0 \<and>
            (case GetUploadURL env (bucket bw) of
               Inl e1 \<Rightarrow> e1 = e
             | Inr ue \<Rightarrow> UploadFile env ue (cbuf bw) (int (length (cbuf bw))) (name bw) (ctype bw)
                           (hex (sha1_Sum env (chsh bw))) (info bw) = Some e))
         \<or> (cidx bw \<noteq> 0 \<and> \<not> once bw
              \<and> StartLargeFile env (bucket bw) (name bw) (ctype bw) (info bw) = Inl e)
         \<or> (cidx bw \<noteq> 0 \<and> (\<exists>lf'. file_w bw' = Some lf' \<and> FinishLargeFile env lf' = Some e)))
   \<and> (at s i Starting \<and> GetUploadPartURL env (large_file s) i = Inl e' \<longrightarrow>
        step env s (become i Exited (s\<lparr>logged := logged s @ [e']\<rparr>))
        \<and> (\<forall>s'. step env s s' \<longrightarrow> at s' i Starting \<or> at s' i Exited))
   \<and> (\<forall>s1 s2. at s1 i Exited \<and> step env s1 s2 \<longrightarrow> at s2 i Exited)"
proof (intro conjI impI allI)
  assume "\<not> once bw \<and> length (cbuf bw) \<le> threshold \<and> threshold \<le> length (cbuf bw) + length p
      \<and> StartLargeFile env (bucket bw) (name bw) (ctype bw) (info bw) = Inl e"
  then have a: "\<not> once bw" "length (cbuf bw) \<le> threshold" "threshold \<le> length (cbuf bw) + length p"
    "StartLargeFile env (bucket bw) (name bw) (ctype bw) (info bw) = Inl e"
    by simp_all
  show "\<exists>bw'. Write env bw p = Returned (int (threshold - length (cbuf bw)), Some e) bw'
         \<and> trace bw' = trace bw @ [CallStartLargeFile (name bw) (ctype bw) (info bw)]"
    by (simp add: Write_start_error [OF a])
next
  assume "serving env lf bw \<and> cidx bw \<noteq> 0 \<and> wg_drains env"
  then show "\<exists>bw'. Close env bw = Returned (FinishLargeFile env lf) bw'
         \<and> trace bw' = trace bw @ (if cbuf bw = [] then [] else [ChanSend (sealed env bw)])
                          @ [ChanClose, CallFinishLargeFile lf]"
    by (simp add: Close_serving_trace)
next
  fix n bw'
  assume "Write env bw p = Returned (n, Some e) bw'"
  from Write_error_origin [OF this]
  show "\<not> once bw" and "StartLargeFile env (bucket bw) (name bw) (ctype bw) (info bw) = Inl e"
    by simp_all
next
  fix bw'
  assume "Close env bw = Returned (Some e) bw'"
  from Close_error_origin [OF this]
  show "(cidx bw = 0 \<and>
            (case GetUploadURL env (bucket bw) of
               Inl e1 \<Rightarrow> e1 = e
             | Inr ue \<Rightarrow> UploadFile env ue (cbuf bw) (int (length (cbuf bw))) (name bw) (ctype bw)
                           (hex (sha1_Sum env (chsh bw))) (info bw) = Some e))
         \<or> (cidx bw \<noteq> 0 \<and> \<not> once bw
              \<and> StartLargeFile env (bucket bw) (name bw) (ctype bw) (info bw) = Inl e)
         \<or> (cidx bw \<noteq> 0 \<and> (\<exists>lf'. file_w bw' = Some lf' \<and> FinishLargeFile env lf' = Some e))" .
next
  assume "at s i Starting \<and> GetUploadPartURL env (large_file s) i = Inl e'"
  then show "step env s (become i Exited (s\<lparr>logged := logged s @ [e']\<rparr>))"
    by (auto intro: step.endpoint_error)
next
  fix s'
  assume "at s i Starting \<and> GetUploadPartURL env (large_file s) i = Inl e'" and "step env s s'"
  then show "at s' i Starting \<or> at s' i Exited"
    by (auto dest: no_endpoint_exits)
next
  fix s1 s2
  assume "at s1 i Exited \<and> step env s1 s2"
  then show "at s2 i Exited"
    by (auto dest: exited_stays)
qed

theorem session_errors_witness:
  "(\<exists>bw'. Write start_down_env stub_writer (replicate threshold 7)
             = Returned (int threshold, Some ''start failed'') bw'
        \<and> trace bw' = [CallStartLargeFile ''object'' ''text/plain'' []])
   \<and> StartLargeFile start_down_env (Bucket ''bucket'') ''object'' ''text/plain'' [] = Inl ''start failed''
   \<and> (\<exists>bw1 bw'. Write finish_fails_env stub_writer (replicate threshold 7)
                   = Returned (int threshold, None) bw1
        \<and> Close finish_fails_env bw1 = Returned (Some ''finish failed'') bw'
        \<and> trace bw' = trace bw1 @ [ChanClose, CallFinishLargeFile (LargeFile ''large'')]
        \<and> (\<exists>lf. file_w bw' = Some lf \<and> FinishLargeFile finish_fails_env lf = Some ''finish failed''))
   \<and> step endpoint_down_env (pool_init (LargeFile ''large'') 2)
        (become 0 Exited ((pool_init (LargeFile ''large'') 2)\<lparr>logged := [''no endpoint'']\<rparr>))
   \<and> (at (become 0 Exited ((pool_init (LargeFile ''large'') 2)\<lparr>logged := [''no endpoint'']\<rparr>)) 0 Starting
        \<or> at (become 0 Exited ((pool_init (LargeFile ''large'') 2)\<lparr>logged := [''no endpoint'']\<rparr>)) 0 Exited)
   \<and> at (become 1 (Receiving (FileChunk 1))
           ((become 0 Exited ((pool_init (LargeFile ''large'') 2)\<lparr>logged := [''no endpoint'']\<rparr>))
              \<lparr>wg := 1\<rparr>)) 0 Exited"
proof -
  let ?lf = "LargeFile ''large''"
  let ?p = "replicate threshold (7 :: byte)"
  let ?s = "pool_init ?lf 2"
  let ?s1 = "become 0 Exited (?s\<lparr>logged := [''no endpoint'']\<rparr>)"
  let ?s2 = "become 1 (Receiving (FileChunk 1)) (?s1\<lparr>wg := 1\<rparr>)"
  have "\<not> once stub_writer \<and> length (cbuf stub_writer) \<le> threshold
      \<and> threshold \<le> length (cbuf stub_writer) + length ?p
      \<and> StartLargeFile start_down_env (bucket stub_writer) (name stub_writer) (ctype stub_writer)
           (info stub_writer) = Inl ''start failed''"
    by (simp add: env_fields)
  with session_errors [where bw = stub_writer and p = ?p and env = start_down_env
      and e = "''start failed''", THEN conjunct1]
  obtain bw0 where start: "Write start_down_env stub_writer ?p = Returned (int threshold, Some ''start failed'') bw0"
      "trace bw0 = [CallStartLargeFile ''object'' ''text/plain'' []]"
    by auto
  from start(1) session_errors [where bw = stub_writer and p = ?p and env = start_down_env
      and e = "''start failed''", THEN conjunct2, THEN conjunct2, THEN conjunct1]
  have origin: "StartLargeFile start_down_env (Bucket ''bucket'') ''object'' ''text/plain'' []
      = Inl ''start failed''"
    by (simp del: env_fields)
  have s0: "serving finish_fails_env ?lf stub_writer"
    using serving_stub [of finish_fails_env ?lf "ConcurrentUploads stub_writer"]
    by (simp add: env_fields)
  from Write_serving [OF s0, of ?p] threshold_pos obtain bw1 where
    w: "Write finish_fails_env stub_writer ?p = Returned (int threshold, None) bw1"
      "serving finish_fails_env ?lf bw1" "length (cbuf bw1) < threshold"
    by auto
  from Write_sizes [OF w(1)] obtain k where
    k: "cidx bw1 = int k" "int (length (cbuf bw1)) + int k * int threshold = int threshold"
    by auto
  have k1: "k = 1"
  proof (cases k)
    case 0
    with k(2) w(3) show ?thesis by simp
  next
    case (Suc m)
    with k(2) have "int (length (cbuf bw1)) + int m * int threshold = 0"
      by (simp add: algebra_simps)
    then have "m * threshold = 0"
      by (metis add_is_0 of_nat_0_eq_iff of_nat_add of_nat_mult)
    with threshold_pos Suc show ?thesis by simp
  qed
  with k have nz: "cidx bw1 \<noteq> 0" and empty: "cbuf bw1 = []"
    by simp_all
  from w(2) have used: "once bw1"
    using nz by (simp add: serving_def)
  have "serving finish_fails_env ?lf bw1 \<and> cidx bw1 \<noteq> 0 \<and> wg_drains finish_fails_env"
    using w(2) nz by (simp add: env_fields)
  with session_errors [where bw = bw1 and env = finish_fails_env and lf = ?lf,
      THEN conjunct2, THEN conjunct1]
  obtain bw2 where close: "Close finish_fails_env bw1 = Returned (Some ''finish failed'') bw2"
    "trace bw2 = trace bw1 @ [ChanClose, CallFinishLargeFile ?lf]"
    using empty by (auto simp: env_fields)
  from close(1) session_errors [where bw = bw1 and env = finish_fails_env and e = "''finish failed''",
      THEN conjunct2, THEN conjunct2, THEN conjunct2, THEN conjunct1]
  have "\<exists>lf. file_w bw2 = Some lf \<and> FinishLargeFile finish_fails_env lf = Some ''finish failed''"
    using nz used by blast
  with w(1) close have finish: "\<exists>bw1 bw'. Write finish_fails_env stub_writer ?p
                   = Returned (int threshold, None) bw1
        \<and> Close finish_fails_env bw1 = Returned (Some ''finish failed'') bw'
        \<and> trace bw' = trace bw1 @ [ChanClose, CallFinishLargeFile ?lf]
        \<and> (\<exists>lf. file_w bw' = Some lf \<and> FinishLargeFile finish_fails_env lf = Some ''finish failed'')"
    by blast
  have down: "at ?s 0 Starting \<and> GetUploadPartURL endpoint_down_env (large_file ?s) 0 = Inl ''no endpoint''"
    by (simp add: at_def pool_init_2 env_fields)
  note worker = session_errors [where env = endpoint_down_env and s = ?s and i = 0
      and e' = "''no endpoint''",
      THEN conjunct2, THEN conjunct2, THEN conjunct2, THEN conjunct2, THEN conjunct1, rule_format, OF down]
  from worker have exits: "step endpoint_down_env ?s ?s1"
    by (simp add: pool_init_2)
  with worker have only: "at ?s1 0 Starting \<or> at ?s1 0 Exited"
    by blast
  have here: "at ?s1 0 Exited"
    by (simp add: at_def pool_init_2)
  have "step endpoint_down_env ?s1 (become 1 (Receiving (FileChunk 1)) (?s1\<lparr>wg := wg ?s1 + 1\<rparr>))"
  proof (rule step.endpoint_ok)
    show "at ?s1 1 Starting"
      by (simp add: at_def pool_init_2)
    show "GetUploadPartURL endpoint_down_env (large_file ?s1) 1 = Inr (FileChunk 1)"
      using env_fields(11) [of "LargeFile ''large''" 0] by (simp add: pool_init_2)
  qed
  then have "step endpoint_down_env ?s1 ?s2"
    by (simp add: pool_init_def)
  with here session_errors [where env = endpoint_down_env and i = 0,
      THEN conjunct2, THEN conjunct2, THEN conjunct2, THEN conjunct2, THEN conjunct2]
  have stays: "at ?s2 0 Exited"
    by blast
  from start origin finish exits only stays show ?thesis
    by (intro conjI) blast+
qed

text \<open>Two workers, and worker 0 gets no part endpoint: it logs the error and returns.
  Worker 1 receives the chunk and uploads it, and returns when the channel is closed, so
  the wait group drains. The \<^verbatim>\<open>Write\<close> that started the session and the workers returns
  no error, and neither does \<^verbatim>\<open>Close\<close>: the error went to the log.\<close>

theorem session_errors_counterexample:
  "GetUploadPartURL endpoint_down_env (LargeFile ''large'') 0 = Inl ''no endpoint''
   \<and> (step endpoint_down_env)\<^sup>*\<^sup>* (pool_init (LargeFile ''large'') 2)
        \<lparr>large_file = LargeFile ''large'', workers = [Exited, Exited], channel = ClosedChan, wg = 0,
         logged = [''no endpoint''], offered = [full_chunk], uploaded = [full_chunk]\<rparr>
   \<and> performs endpoint_down_env (stub_writer\<lparr>ConcurrentUploads := 2\<rparr>)
               [DoWrite (replicate threshold 7), DoClose]
        = Returned [WriteResult (int threshold) None, CloseResult None]
            (stub_writer\<lparr>ConcurrentUploads := 2, ready := ClosedChan, once := True, done_w := True,
               file_w := Some (LargeFile ''large''), cidx := 1,
               trace := [CallStartLargeFile ''object'' ''text/plain'' [], Go 0, Go 1, ChanSend full_chunk,
                         ChanClose, CallFinishLargeFile (LargeFile ''large'')]\<rparr>)"
proof (intro conjI)
  show "GetUploadPartURL endpoint_down_env (LargeFile ''large'') 0 = Inl ''no endpoint''"
    by (simp add: env_fields)
  show "(step endpoint_down_env)\<^sup>*\<^sup>* (pool_init (LargeFile ''large'') 2)
        \<lparr>large_file = LargeFile ''large'', workers = [Exited, Exited], channel = ClosedChan, wg = 0,
         logged = [''no endpoint''], offered = [full_chunk], uploaded = [full_chunk]\<rparr>"
    by (rule two_worker_run)
  show "performs endpoint_down_env (stub_writer\<lparr>ConcurrentUploads := 2\<rparr>)
               [DoWrite (replicate threshold 7), DoClose]
        = Returned [WriteResult (int threshold) None, CloseResult None]
            (stub_writer\<lparr>ConcurrentUploads := 2, ready := ClosedChan, once := True, done_w := True,
               file_w := Some (LargeFile ''large''), cidx := 1,
               trace := [CallStartLargeFile ''object'' ''text/plain'' [], Go 0, Go 1, ChanSend full_chunk,
                         ChanClose, CallFinishLargeFile (LargeFile ''large'')]\<rparr>)"
    by (simp only: performs.simps perform.simps two_worker_write two_worker_close
        outcome.case prod.case)
qed

text \<open>
  C3. A new writer is given more than \<open>threshold\<close> bytes in any sequence of \<^verbatim>\<open>Write\<close>
  calls and is then closed, the start call succeeds and the workers receive every chunk
  offered. Then the chunks handed over number \<open>ceil(L / threshold)\<close>, every one but the
  last has \<open>threshold\<close> bytes, and the last has \<open>L mod threshold\<close> bytes, or \<open>threshold\<close>
  when that is zero. Together they carry the bytes written, in order. Every \<^verbatim>\<open>Write\<close>
  returns the length of its argument and no error, and \<^verbatim>\<open>Close\<close> returns the result of
  the finish call once the wait group drains.
\<close>

theorem parts_of_large_object:
  assumes start: "StartLargeFile env b nm ct meta = Inr lf"
    and recv: "\<forall>c. ready_received env c"
    and large: "threshold < length (concat ps)"
  shows "let L = length (concat ps);
             final = performs env
                       ((NewWriter env b nm ct meta)\<lparr>ConcurrentUploads := cu, TotalRetries := tr\<rparr>)
                       (map DoWrite ps @ [DoClose]);
             parts = sent (trace (state_of final))
         in length parts = (L + threshold - 1) div threshold
            \<and> (\<forall>i. i + 1 < length parts \<longrightarrow> size_chunk (parts ! i) = int threshold)
            \<and> size_chunk (last parts) = int (if L mod threshold = 0 then threshold else L mod threshold)
            \<and> concat (map buf parts) = concat ps
            \<and> (wg_drains env \<longrightarrow>
                 (\<exists>bw'. final = Returned (map (\<lambda>p. WriteResult (int (length p)) None) ps
                                            @ [CloseResult (FinishLargeFile env lf)]) bw'))"
proof -
  let ?bw0 = "(NewWriter env b nm ct meta)\<lparr>ConcurrentUploads := cu, TotalRetries := tr\<rparr>"
  let ?L = "length (concat ps)"
  let ?final = "performs env ?bw0 (map DoWrite ps @ [DoClose])"
  have s0: "serving env lf ?bw0"
    using start recv by (simp add: serving_new)
  have b0: "length (cbuf ?bw0) < threshold" "taken ?bw0 = []" "sent (trace ?bw0) = []" "cidx ?bw0 = 0"
    using threshold_pos by (simp_all add: NewWriter_def taken_def)
  from performs_writes_serving [OF s0 b0(1), of ps] obtain bw cs where
    w: "performs env ?bw0 (map DoWrite ps) = Returned (map (\<lambda>p. WriteResult (int (length p)) None) ps) bw"
      "serving env lf bw" "length (cbuf bw) < threshold" "taken bw = concat ps"
      "sent (trace bw) = cs" "cidx bw = int (length cs)"
      "\<forall>c \<in> set cs. length (buf c) = threshold \<and> size_chunk c = int threshold"
    unfolding b0 by auto
  let ?k = "length cs" and ?r = "length (cbuf bw)"
  let ?tail = "if cbuf bw = [] then [] else [sealed env bw]"
  have "cbuf ?bw0 = []"
    by (simp add: NewWriter_def)
  with taken_sizes [of bw ?bw0 cs] w(4,5,7) b0(2,3)
  have L: "?L = ?k * threshold + ?r"
    by simp
  have k: "?L div threshold = ?k" and r: "?L mod threshold = ?r"
    using w(3) by (simp_all add: L)
  have kpos: "0 < ?k"
    using large w(3) L by (cases "?k") simp_all
  then have nz: "cidx bw \<noteq> 0"
    using w(6) by simp
  from Close_serving [OF w(2) nz]
  have c: "sent (trace (state_of (Close env bw))) = cs @ ?tail"
    and ret: "wg_drains env \<longrightarrow> (\<exists>bw'. Close env bw = Returned (FinishLargeFile env lf) bw')"
    using w(5) by simp_all
  have "state_of ?final = state_of (Close env bw)"
    using state_of_performs_snoc [OF w(1), of DoClose] by (simp only: state_of_perform)
  with c have parts: "sent (trace (state_of ?final)) = cs @ ?tail"
    by simp
  have n: "length (cs @ ?tail) = (?L + threshold - 1) div threshold"
    using ceil_div [OF w(3), of ?k] by (simp add: L)
  have all_but_last: "size_chunk ((cs @ ?tail) ! i) = int threshold" if "i + 1 < length (cs @ ?tail)" for i
  proof -
    from that have "i < ?k"
      by (simp split: if_splits)
    then show ?thesis
      using w(7) by (simp add: nth_append)
  qed
  have last: "size_chunk (last (cs @ ?tail))
                = int (if ?L mod threshold = 0 then threshold else ?L mod threshold)"
  proof (cases "cbuf bw = []")
    case True
    from kpos have "cs \<noteq> []" by auto
    then have "last cs \<in> set cs" by simp
    with w(7) True show ?thesis
      by (simp add: r)
  next
    case False
    then show ?thesis
      by (simp add: r sealed_def)
  qed
  have "concat (map buf cs) @ cbuf bw = concat ps"
    using w(4,5) by (simp add: taken_def)
  then have bytes: "concat (map buf (cs @ ?tail)) = concat ps"
    by (auto simp: sealed_def)
  have returned: "\<exists>bw'. ?final = Returned (map (\<lambda>p. WriteResult (int (length p)) None) ps
                                            @ [CloseResult (FinishLargeFile env lf)]) bw'"
    if "wg_drains env"
  proof -
    from ret that obtain bw' where "Close env bw = Returned (FinishLargeFile env lf) bw'"
      by blast
    with w(1) show ?thesis
      by (simp add: performs_append)
  qed
  show ?thesis
    unfolding Let_def parts
    using n all_but_last last bytes returned by blast
qed

theorem parts_of_large_object_witness:
  "length (sent (trace (state_of (performs stub_env stub_writer
             [DoWrite (replicate threshold 7), DoWrite [1], DoClose])))) = 2
   \<and> size_chunk (sent (trace (state_of (performs stub_env stub_writer
             [DoWrite (replicate threshold 7), DoWrite [1], DoClose]))) ! 0) = int threshold
   \<and> size_chunk (last (sent (trace (state_of (performs stub_env stub_writer
             [DoWrite (replicate threshold 7), DoWrite [1], DoClose]))))) = 1
   \<and> concat (map buf (sent (trace (state_of (performs stub_env stub_writer
             [DoWrite (replicate threshold 7), DoWrite [1], DoClose])))))
        = replicate threshold 7 @ [1]
   \<and> (\<exists>bw'. performs stub_env stub_writer [DoWrite (replicate threshold 7), DoWrite [1], DoClose]
              = Returned [WriteResult (int threshold) None, WriteResult 1 None, CloseResult None] bw')"
proof -
  let ?ps = "[replicate threshold 7, [1 :: byte]]"
  let ?parts = "sent (trace (state_of (performs stub_env stub_writer
             [DoWrite (replicate threshold 7), DoWrite [1], DoClose])))"
  have L: "length (concat ?ps) = threshold + 1"
    by simp
  have large: "threshold < length (concat ?ps)"
    by simp
  have n: "(threshold + 1 + threshold - 1) div threshold = 2"
    using threshold_pos by simp
  have "(threshold + 1) mod threshold = 1 mod threshold"
    by (rule mod_add_self1)
  then have m: "(threshold + 1) mod threshold = 1"
    using threshold_gt_1 by (simp only: mod_less)
  have recv: "\<forall>c. ready_received stub_env c"
    by (simp add: stub_env_accepts)
  note inst = parts_of_large_object [of stub_env "Bucket ''bucket''" "''object''" "''text/plain''" "[]"
      "LargeFile ''large''" ?ps 0 0, OF stub_env_accepts(1) recv large,
      folded stub_writer_fresh, unfolded Let_def L n m]
  have inst': "length ?parts = 2
      \<and> (\<forall>i. i + 1 < length ?parts \<longrightarrow> size_chunk (?parts ! i) = int threshold)
      \<and> size_chunk (last ?parts) = 1
      \<and> concat (map buf ?parts) = replicate threshold 7 @ [1]
      \<and> (\<exists>bw'. performs stub_env stub_writer [DoWrite (replicate threshold 7), DoWrite [1], DoClose]
              = Returned [WriteResult (int threshold) None, WriteResult 1 None, CloseResult None] bw')"
    using inst by (simp add: stub_env_accepts)
  then have "size_chunk (?parts ! 0) = int threshold"
    by simp
  with inst' show ?thesis
    by blast
qed

text \<open>
  C4. The chunks a writer hands over carry, in the order of hand-over, the ids
  \<open>1, 2, ..., cidx\<close> and the attempt counter \<open>0\<close>: this holds wherever a sequence of
  \<^verbatim>\<open>Write\<close> and \<^verbatim>\<open>Close\<close> calls on a new writer ends. In the pool, every chunk a worker
  holds or has uploaded is one of the chunks handed over, with the same id, size, digest
  and payload and an attempt counter that is not smaller; and the step a worker takes when
  \<^verbatim>\<open>UploadPart\<close> fails offers the same chunk again with only the attempt counter
  changed, to one more.
\<close>

theorem chunk_ids:
  "(let bw = state_of (performs env
                ((NewWriter env b nm ct meta)\<lparr>ConcurrentUploads := cu, TotalRetries := tr\<rparr>) cs)
    in 0 \<le> cidx bw \<and> map id_chunk (sent (trace bw)) = [1..cidx bw]
       \<and> list_all (\<lambda>c. attempt c = 0) (sent (trace bw)))
   \<and> ((step env)\<^sup>*\<^sup>* (pool_init lf n) s \<longrightarrow>
        (\<forall>c \<in> set (in_flight s) \<union> set (uploaded s).
           \<exists>c0 \<in> set (offered s).
             id_chunk c = id_chunk c0 \<and> size_chunk c = size_chunk c0 \<and> sha1 c = sha1 c0
             \<and> buf c = buf c0 \<and> attempt c0 \<le> attempt c))
   \<and> (at s' i (Uploading fc c) \<and> UploadPart env fc c = Some e \<longrightarrow>
        step env s' (become i (Sending fc (c\<lparr>attempt := attempt c + 1\<rparr>)) (s'\<lparr>logged := logged s' @ [e]\<rparr>))
        \<and> c\<lparr>attempt := attempt c + 1\<rparr>
            = \<lparr>id_chunk = id_chunk c, attempt = attempt c + 1, size_chunk = size_chunk c,
               sha1 = sha1 c, buf = buf c\<rparr>)"
proof (intro conjI impI)
  let ?bw0 = "(NewWriter env b nm ct meta)\<lparr>ConcurrentUploads := cu, TotalRetries := tr\<rparr>"
  have "ids_ok ?bw0"
    by (simp add: ids_ok_def NewWriter_def)
  from ids_ok_performs [OF this, of env cs]
  show "let bw = state_of (performs env ?bw0 cs)
    in 0 \<le> cidx bw \<and> map id_chunk (sent (trace bw)) = [1..cidx bw]
       \<and> list_all (\<lambda>c. attempt c = 0) (sent (trace bw))"
    by (simp add: ids_ok_def Let_def)
next
  assume "(step env)\<^sup>*\<^sup>* (pool_init lf n) s"
  from pool_ok_steps [OF this pool_ok_init]
  show "\<forall>c \<in> set (in_flight s) \<union> set (uploaded s).
           \<exists>c0 \<in> set (offered s).
             id_chunk c = id_chunk c0 \<and> size_chunk c = size_chunk c0 \<and> sha1 c = sha1 c0
             \<and> buf c = buf c0 \<and> attempt c0 \<le> attempt c"
    by (simp add: pool_ok_def retry_of_def)
next
  assume "at s' i (Uploading fc c) \<and> UploadPart env fc c = Some e"
  then show "step env s' (become i (Sending fc (c\<lparr>attempt := attempt c + 1\<rparr>)) (s'\<lparr>logged := logged s' @ [e]\<rparr>))"
    by (auto intro: step.upload_error)
next
  show "c\<lparr>attempt := attempt c + 1\<rparr>
            = \<lparr>id_chunk = id_chunk c, attempt = attempt c + 1, size_chunk = size_chunk c,
               sha1 = sha1 c, buf = buf c\<rparr>"
    by (cases c) simp
qed

theorem chunk_ids_witness:
  "map id_chunk (sent (trace (state_of (performs stub_env stub_writer
        [DoWrite (replicate threshold 7), DoClose])))) = [1]
   \<and> (\<exists>s. (step part_fails_env)\<^sup>*\<^sup>* (pool_init (LargeFile ''large'') 2) s
          \<and> stub_chunk\<lparr>attempt := 1\<rparr> \<in> set (in_flight s) \<and> offered s = [stub_chunk]
          \<and> (\<exists>c0 \<in> set (offered s). id_chunk (stub_chunk\<lparr>attempt := 1\<rparr>) = id_chunk c0
                \<and> attempt c0 \<le> attempt (stub_chunk\<lparr>attempt := 1\<rparr>)))
   \<and> step part_fails_env
         (become 0 (Uploading (FileChunk 0) stub_chunk) (pool_init (LargeFile ''large'') 2))
         (become 0 (Sending (FileChunk 0) (stub_chunk\<lparr>attempt := 1\<rparr>))
            ((become 0 (Uploading (FileChunk 0) stub_chunk) (pool_init (LargeFile ''large'') 2))
               \<lparr>logged := [''part failed'']\<rparr>))"
proof (intro conjI)
  define final where
    "final = state_of (performs stub_env stub_writer [DoWrite (replicate threshold 7), DoClose])"
  have s0: "serving stub_env (LargeFile ''large'') stub_writer"
    using serving_stub [of stub_env "LargeFile ''large''" "ConcurrentUploads stub_writer"]
    by (simp add: stub_env_accepts)
  have len: "length (sent (trace final)) = 1"
    unfolding final_def by (rule one_full_chunk [OF s0]) simp_all
  have ids: "0 \<le> cidx final \<and> map id_chunk (sent (trace final)) = [1..cidx final]
      \<and> list_all (\<lambda>c. attempt c = 0) (sent (trace final))"
    unfolding final_def
    by (rule chunk_ids [where env = stub_env and b = "Bucket ''bucket''" and nm = "''object''"
      and ct = "''text/plain''" and meta = "[]" and cu = 0 and tr = 0
      and cs = "[DoWrite (replicate threshold 7), DoClose]", THEN conjunct1,
      folded stub_writer_fresh, unfolded Let_def])
  then have "length (sent (trace final)) = length [1..cidx final]"
    by (metis length_map)
  with len have "nat (cidx final) = 1"
    by (simp add: length_upto)
  then have "cidx final = 1"
    by simp
  with ids have "map id_chunk (sent (trace final)) = [1]"
    by simp
  then show "map id_chunk (sent (trace (state_of (performs stub_env stub_writer
        [DoWrite (replicate threshold 7), DoClose])))) = [1]"
    by (simp only: final_def)
next
  let ?lf = "LargeFile ''large''"
  from first_failure [of part_fails_env ?lf "FileChunk 0" "FileChunk 1" stub_chunk "''part failed''"]
  obtain s where
    s: "(step part_fails_env)\<^sup>*\<^sup>* (pool_init ?lf 2) s"
      "at s 0 (Sending (FileChunk 0) (stub_chunk\<lparr>attempt := attempt stub_chunk + 1\<rparr>))"
      "offered s = [stub_chunk]"
    by (auto simp: env_fields)
  have a1: "stub_chunk\<lparr>attempt := attempt stub_chunk + 1\<rparr> = stub_chunk\<lparr>attempt := 1\<rparr>"
    by (simp add: stub_chunk_def)
  from in_flight_at [OF s(2)] have inf: "stub_chunk\<lparr>attempt := 1\<rparr> \<in> set (in_flight s)"
    by (simp add: a1)
  from chunk_ids [where env = part_fails_env and lf = ?lf and n = 2 and s = s,
      THEN conjunct2, THEN conjunct1] s(1) inf
  have "\<exists>c0 \<in> set (offered s). id_chunk (stub_chunk\<lparr>attempt := 1\<rparr>) = id_chunk c0
                \<and> attempt c0 \<le> attempt (stub_chunk\<lparr>attempt := 1\<rparr>)"
    by blast
  with s(1,3) inf
  show "\<exists>s. (step part_fails_env)\<^sup>*\<^sup>* (pool_init ?lf 2) s
          \<and> stub_chunk\<lparr>attempt := 1\<rparr> \<in> set (in_flight s) \<and> offered s = [stub_chunk]
          \<and> (\<exists>c0 \<in> set (offered s). id_chunk (stub_chunk\<lparr>attempt := 1\<rparr>) = id_chunk c0
                \<and> attempt c0 \<le> attempt (stub_chunk\<lparr>attempt := 1\<rparr>))"
    by blast
next
  let ?s = "become 0 (Uploading (FileChunk 0) stub_chunk) (pool_init (LargeFile ''large'') 2)"
  have "at ?s 0 (Uploading (FileChunk 0) stub_chunk)
        \<and> UploadPart part_fails_env (FileChunk 0) stub_chunk = Some ''part failed''"
    by (simp add: at_def pool_init_2 env_fields)
  with chunk_ids [where env = part_fails_env and s' = ?s and i = 0 and fc = "FileChunk 0"
      and c = stub_chunk and e = "''part failed''", THEN conjunct2, THEN conjunct2]
  show "step part_fails_env ?s
         (become 0 (Sending (FileChunk 0) (stub_chunk\<lparr>attempt := 1\<rparr>)) (?s\<lparr>logged := [''part failed'']\<rparr>))"
    by (simp add: pool_init_2 stub_chunk_def)
qed

text \<open>
  C5. \<^verbatim>\<open>Close\<close> is idempotent. Whatever the state of the writer, \<open>n + 1\<close> calls of
  \<^verbatim>\<open>Close\<close> in a row do what the first call does, and each later call returns \<open>nil\<close>
  and leaves the writer as it is: its trace included, so it makes no remote call. This
  holds whether the first call returned an error or not. (If the first call never
  returns, there is no later call.)
\<close>

theorem Close_idempotent:
  "performs env bw (replicate (Suc n) DoClose) =
     (case Close env bw of
        Returned r bw1 \<Rightarrow> Returned (CloseResult r # replicate n (CloseResult None)) bw1
      | Blocked s \<Rightarrow> Blocked s
      | Panicked s \<Rightarrow> Panicked s)"
  by (auto simp: performs_Close_done dest: Close_Returned_done split: outcome.splits)

theorem Close_idempotent_witness:
  "performs stub_env stub_writer [DoClose, DoClose, DoClose] =
     Returned [CloseResult None, CloseResult None, CloseResult None]
       (stub_writer
          \<lparr>done_w := True,
           trace := [CallGetUploadURL (Bucket ''bucket''),
                     CallUploadFile (URL ''upload'') [] 0 ''object'' ''text/plain'' ''00'' []]\<rparr>)"
  using Close_idempotent [of stub_env stub_writer 2]
  by (simp add: Close_stub_writer numeral_2_eq_2)

text \<open>
  C6, at the input where the code departs from it: a writer with the default single
  worker, and a part upload that fails. The \<^verbatim>\<open>Write\<close> of \<open>threshold\<close> bytes starts the
  session and one worker, hands the chunk over and returns. The worker gets its endpoint,
  receives the chunk, and its upload fails: it logs the error, raises the attempt counter
  to \<open>1\<close> and is at the send of the chunk on \<^verbatim>\<open>ready\<close>. No worker is there to receive, so
  the send does not complete and the chunk is not uploaded again: the pool's only step
  is the close of the channel by \<^verbatim>\<open>Close\<close>, the only step after that is the panic of the
  send on the closed channel, and after that there is none.
\<close>

theorem lone_worker_never_retries:
  "(\<exists>bw1. Write part_fails_env stub_writer (replicate threshold 7) = Returned (int threshold, None) bw1
        \<and> trace bw1 = [CallStartLargeFile ''object'' ''text/plain'' [], Go 0, ChanSend full_chunk])
   \<and> UploadPart part_fails_env (FileChunk 0) full_chunk = Some ''part failed''
   \<and> (step part_fails_env)\<^sup>*\<^sup>* (pool_init (LargeFile ''large'') 1) stalled_pool
   \<and> {s. step part_fails_env stalled_pool s} = {stalled_pool\<lparr>channel := ClosedChan\<rparr>}
   \<and> {s. step part_fails_env (stalled_pool\<lparr>channel := ClosedChan\<rparr>) s}
        = {stalled_pool\<lparr>channel := ClosedChan, workers := [Crashed], wg := 0\<rparr>}
   \<and> {s. step part_fails_env (stalled_pool\<lparr>channel := ClosedChan, workers := [Crashed], wg := 0\<rparr>) s} = {}"
proof -
  have "\<exists>bw1. Write part_fails_env stub_writer (replicate threshold 7) = Returned (int threshold, None) bw1
        \<and> trace bw1 = [CallStartLargeFile ''object'' ''text/plain'' [], Go 0, ChanSend full_chunk]"
    by (simp add: single_worker_write)
  moreover have "UploadPart part_fails_env (FileChunk 0) full_chunk = Some ''part failed''"
    by (rule env_fields)
  moreover note single_worker_run stalled_steps
  ultimately show ?thesis
    by (intro conjI)
qed

text \<open>
  C7, as amended. The digest accumulator is the digest of the bytes in the unsealed
  buffer: this holds for a new writer (whatever its two public options are set to) and
  wherever a sequence of \<^verbatim>\<open>Write\<close> and \<^verbatim>\<open>Close\<close> calls ends, as long as no whole-object
  upload has been issued. A seal that returns leaves the empty buffer and the start state
  of the digest, and a write to the multi-writer appends the bytes to the buffer and
  folds the same bytes into the digest. The whole-object upload of \<^verbatim>\<open>Close\<close> is handed
  the buffer itself: what it leaves in the buffer are the bytes it has not read, and the
  digest stays the digest of all of them.
\<close>

theorem digest_lockstep:
  "digest_ok env (NewWriter env b nm ct meta)
   \<and> (\<not> handed_over
          (state_of (performs env ((NewWriter env b nm ct meta)\<lparr>ConcurrentUploads := cu, TotalRetries := tr\<rparr>) cs))
        \<longrightarrow> digest_ok env
          (state_of (performs env ((NewWriter env b nm ct meta)\<lparr>ConcurrentUploads := cu, TotalRetries := tr\<rparr>) cs)))
   \<and> (\<forall>bw bw2. sendChunk env bw = Returned None bw2 \<longrightarrow> cbuf bw2 = [] \<and> chsh bw2 = sha1_New env)
   \<and> (\<forall>bw p. cbuf (w_Write env bw p) = cbuf bw @ p
              \<and> chsh (w_Write env bw p) = foldl (sha1_step env) (chsh bw) p)
   \<and> (\<forall>bw ue. \<not> done_w bw \<and> cidx bw = 0 \<and> GetUploadURL env (bucket bw) = Inr ue \<longrightarrow>
         cbuf (state_of (Close env bw)) = drop (UploadFile_reads env ue (cbuf bw)) (cbuf bw)
         \<and> chsh (state_of (Close env bw)) = chsh bw)"
proof -
  have new: "digest_ok env ((NewWriter env b nm ct meta)\<lparr>ConcurrentUploads := cu, TotalRetries := tr\<rparr>)
      \<or> handed_over ((NewWriter env b nm ct meta)\<lparr>ConcurrentUploads := cu, TotalRetries := tr\<rparr>)"
    by (simp add: digest_ok_def NewWriter_def)
  have "digest_ok env (NewWriter env b nm ct meta)"
    by (simp add: digest_ok_def NewWriter_def)
  moreover note digest_kept_performs [OF new, of cs]
  moreover have "cbuf bw2 = [] \<and> chsh bw2 = sha1_New env"
    if "sendChunk env bw = Returned None bw2" for bw bw2
    using sendChunk_sent [OF that] by blast
  moreover have "cbuf (state_of (Close env bw)) = drop (UploadFile_reads env ue (cbuf bw)) (cbuf bw)
         \<and> chsh (state_of (Close env bw)) = chsh bw"
    if "\<not> done_w bw \<and> cidx bw = 0 \<and> GetUploadURL env (bucket bw) = Inr ue" for bw ue
    using that Close_simple_buffer [of bw env ue] by blast
  ultimately show ?thesis
    by auto
qed

theorem digest_lockstep_witness:
  "digest_ok stub_env stub_writer
   \<and> digest_ok stub_env (state_of (performs stub_env stub_writer [DoWrite (replicate threshold 7), DoClose]))
   \<and> chsh (w_Write stub_env stub_writer [1, 2, 3]) = 9
   \<and> cbuf (w_Write stub_env stub_writer [1, 2, 3]) = [1, 2, 3]
   \<and> (\<exists>bw2. sendChunk stub_env (w_Write stub_env stub_writer [1, 2, 3]) = Returned None bw2
          \<and> cbuf bw2 = [] \<and> chsh bw2 = 0)
   \<and> cbuf (state_of (Close stub_env (w_Write stub_env stub_writer [1, 2, 3]))) = []
   \<and> chsh (state_of (Close stub_env (w_Write stub_env stub_writer [1, 2, 3]))) = 9"
proof -
  let ?cs = "[DoWrite (replicate threshold 7), DoClose]"
  let ?bw = "w_Write stub_env stub_writer [1, 2, 3]"
  note inst = digest_lockstep [of stub_env "Bucket ''bucket''" "''object''" "''text/plain''" "[]"
      0 0 ?cs, folded stub_writer_fresh stub_writer_def]
  from stub_full_chunk_run obtain bw' where
    run: "performs stub_env stub_writer ?cs = Returned [WriteResult (int threshold) None, CloseResult None] bw'"
      and "no_whole_object bw'"
    by blast
  then have "\<not> handed_over (state_of (performs stub_env stub_writer ?cs))"
    by (simp add: no_whole_object_handed_over)
  with inst have sealed_run: "digest_ok stub_env (state_of (performs stub_env stub_writer ?cs))"
    by blast
  have s0: "serving stub_env (LargeFile ''large'') ?bw"
    unfolding serving_w_Write stub_writer_fresh by (rule serving_new) (simp_all add: stub_env_accepts)
  from sendChunk_serving [OF s0] obtain bw2 where
    bw2: "sendChunk stub_env ?bw = Returned None bw2"
    by blast
  with inst have "cbuf bw2 = [] \<and> chsh bw2 = sha1_New stub_env"
    by blast
  with bw2 have seal: "\<exists>bw2. sendChunk stub_env ?bw = Returned None bw2 \<and> cbuf bw2 = [] \<and> chsh bw2 = 0"
    by (simp add: stub_env_def)
  have nine: "chsh ?bw = 9"
    by (simp add: stub_env_def)
  have "\<not> done_w ?bw \<and> cidx ?bw = 0 \<and> GetUploadURL stub_env (bucket ?bw) = Inr (URL ''upload'')"
    by (simp add: stub_writer_fields stub_env_accepts)
  with inst have "cbuf (state_of (Close stub_env ?bw))
        = drop (UploadFile_reads stub_env (URL ''upload'') (cbuf ?bw)) (cbuf ?bw)
      \<and> chsh (state_of (Close stub_env ?bw)) = chsh ?bw"
    by blast
  then have closed: "cbuf (state_of (Close stub_env ?bw)) = []" "chsh (state_of (Close stub_env ?bw)) = 9"
    using nine by (simp_all add: stub_env_reads)
  from inst sealed_run seal nine closed show ?thesis
    by simp
qed

text \<open>Three bytes are written and the writer is closed. The upload has read the buffer:
  it is empty, and the digest is still the digest of the three bytes, not the start
  state.\<close>

theorem digest_lockstep_counterexample:
  "cbuf (state_of (performs stub_env stub_writer [DoWrite [1, 2], DoWrite [3], DoClose])) = []
   \<and> chsh (state_of (performs stub_env stub_writer [DoWrite [1, 2], DoWrite [3], DoClose])) = 9
   \<and> foldl (sha1_step stub_env) (sha1_New stub_env) [] = 0
   \<and> \<not> digest_ok stub_env
         (state_of (performs stub_env stub_writer [DoWrite [1, 2], DoWrite [3], DoClose]))"
proof -
  let ?bw = "w_Write stub_env stub_writer [1, 2, 3]"
  have "state_of (performs stub_env stub_writer ([DoWrite [1, 2], DoWrite [3]] @ [DoClose]))
      = state_of (perform stub_env ?bw DoClose)"
    by (rule state_of_performs_snoc [OF stub_three_bytes])
  then have run: "state_of (performs stub_env stub_writer [DoWrite [1, 2], DoWrite [3], DoClose])
      = state_of (Close stub_env ?bw)"
    by (simp only: state_of_perform append_Cons append_Nil)
  have f: "\<not> done_w ?bw" "cidx ?bw = 0" "GetUploadURL stub_env (bucket ?bw) = Inr (URL ''upload'')"
    by (simp_all add: stub_writer_fields stub_env_accepts)
  have "cbuf (state_of (Close stub_env ?bw)) = []" "chsh (state_of (Close stub_env ?bw)) = 9"
    using Close_simple_buffer [OF f] by (simp_all add: stub_env_reads, simp add: stub_env_def)
  then show ?thesis
    unfolding run by (simp add: digest_ok_def, simp add: stub_env_def)
qed

text \<open>
  C8. The first overflow of a writer (guard unused, channel never allocated) meets a
  start call that fails. The \<^verbatim>\<open>Write\<close> returns that error with the count of the bytes that
  filled the buffer; the guard is used and the channel is still nil. From then on, under
  any environment, every seal and every \<^verbatim>\<open>Write\<close> (of any bytes, none included) blocks
  forever at the send, in the state the failed \<^verbatim>\<open>Write\<close> left: no start call is made again.
\<close>

theorem failed_start_uses_guard:
  assumes "\<not> once bw" and "ready bw = NilChan" and "length (cbuf bw) \<le> threshold"
    and "threshold \<le> length (cbuf bw) + length p"
    and "StartLargeFile env (bucket bw) (name bw) (ctype bw) (info bw) = Inl e"
  shows "\<exists>bw'. Write env bw p = Returned (int (threshold - length (cbuf bw)), Some e) bw'
           \<and> once bw' \<and> ready bw' = NilChan
           \<and> trace bw' = trace bw @ [CallStartLargeFile (name bw) (ctype bw) (info bw)]
           \<and> (\<forall>env'. sendChunk env' bw' = Blocked bw')
           \<and> (\<forall>env' q. Write env' bw' q = Blocked bw')"
proof -
  let ?bw' = "(emit (CallStartLargeFile (name bw) (ctype bw) (info bw))
                 (w_Write env bw (take (threshold - length (cbuf bw)) p)))\<lparr>once := True\<rparr>"
  have full: "length (cbuf ?bw') = threshold"
    using assms(3,4) by simp
  have blocked: "sendChunk env' ?bw' = Blocked ?bw'" for env' :: "'a env"
    using assms(2) by (simp add: sendChunk_def)
  have "Write env' ?bw' q = Blocked ?bw'" for env' :: "'a env" and q
  proof -
    have "threshold \<le> length (cbuf ?bw') + length q" "length (cbuf ?bw') \<le> threshold"
      using full by simp_all
    from Write_seal [OF this, of env'] full blocked [of env'] show ?thesis
      by simp
  qed
  with blocked Write_start_error [OF assms(1,3,4,5)] assms(2) show ?thesis
    by (intro exI [of _ ?bw']) simp
qed

theorem failed_start_uses_guard_witness:
  "\<exists>bw'. Write start_down_env stub_writer (replicate threshold 7 @ [1])
           = Returned (int threshold, Some ''start failed'') bw'
      \<and> once bw' \<and> ready bw' = NilChan
      \<and> trace bw' = [CallStartLargeFile ''object'' ''text/plain'' []]
      \<and> sendChunk stub_env bw' = Blocked bw'
      \<and> Write stub_env bw' [9] = Blocked bw'
      \<and> Write stub_env bw' [] = Blocked bw'"
proof -
  let ?p = "replicate threshold (7 :: byte) @ [1]"
  have "\<not> once stub_writer" "ready stub_writer = NilChan" "length (cbuf stub_writer) \<le> threshold"
    "threshold \<le> length (cbuf stub_writer) + length ?p"
    "StartLargeFile start_down_env (bucket stub_writer) (name stub_writer) (ctype stub_writer)
       (info stub_writer) = Inl ''start failed''"
    by (simp_all add: env_fields)
  from failed_start_uses_guard [OF this] show ?thesis
    by auto
qed

text \<open>
  C9, as amended. A new writer on which only empty slices were written (each such
  \<^verbatim>\<open>Write\<close> returns \<open>(0, nil)\<close> and changes nothing) is closed. \<^verbatim>\<open>Close\<close> asks for an upload
  URL. If it gets one, it issues exactly one whole-object upload with the empty payload,
  size \<open>0\<close>, the digest of the empty byte sequence and the object's name, and returns
  what the upload returns. If it gets none, it returns that error and issues no upload.
\<close>

theorem close_without_bytes:
  "performs env ((NewWriter env b nm ct meta)\<lparr>ConcurrentUploads := cu, TotalRetries := tr\<rparr>)
       (map DoWrite (replicate n []))
     = Returned (replicate n (WriteResult 0 None))
         ((NewWriter env b nm ct meta)\<lparr>ConcurrentUploads := cu, TotalRetries := tr\<rparr>)
   \<and> (GetUploadURL env b = Inr ue \<longrightarrow>
        (\<exists>bw'. Close env ((NewWriter env b nm ct meta)\<lparr>ConcurrentUploads := cu, TotalRetries := tr\<rparr>)
                  = Returned (UploadFile env ue [] 0 nm ct (hex (sha1_Sum env (sha1_New env))) meta) bw'
           \<and> trace bw' = [CallGetUploadURL b,
                           CallUploadFile ue [] 0 nm ct (hex (sha1_Sum env (sha1_New env))) meta]))
   \<and> (GetUploadURL env b = Inl e \<longrightarrow>
        (\<exists>bw'. Close env ((NewWriter env b nm ct meta)\<lparr>ConcurrentUploads := cu, TotalRetries := tr\<rparr>)
                  = Returned (Some e) bw'
           \<and> trace bw' = [CallGetUploadURL b]))"
proof (intro conjI impI)
  let ?bw0 = "(NewWriter env b nm ct meta)\<lparr>ConcurrentUploads := cu, TotalRetries := tr\<rparr>"
  have new: "cbuf ?bw0 = []" "cidx ?bw0 = 0" "trace ?bw0 = []" "\<not> done_w ?bw0"
    "chsh ?bw0 = sha1_New env" "bucket ?bw0 = b" "name ?bw0 = nm" "ctype ?bw0 = ct" "info ?bw0 = meta"
    by (simp_all add: NewWriter_def)
  have "Write env ?bw0 [] = Returned (0, None) ?bw0"
    using threshold_pos by (subst Write_small) (simp_all add: new)
  then show "performs env ?bw0 (map DoWrite (replicate n [])) = Returned (replicate n (WriteResult 0 None)) ?bw0"
    by (induction n) simp_all
  note simple = Close_simple [OF new(4) new(2), of env, unfolded new]
  {
    assume "GetUploadURL env b = Inr ue"
    with simple
    show "\<exists>bw'. Close env ?bw0
                  = Returned (UploadFile env ue [] 0 nm ct (hex (sha1_Sum env (sha1_New env))) meta) bw'
           \<and> trace bw' = [CallGetUploadURL b,
                           CallUploadFile ue [] 0 nm ct (hex (sha1_Sum env (sha1_New env))) meta]"
      by simp
  }
  {
    assume "GetUploadURL env b = Inl e"
    with simple
    show "\<exists>bw'. Close env ?bw0 = Returned (Some e) bw' \<and> trace bw' = [CallGetUploadURL b]"
      by simp
  }
qed

theorem close_without_bytes_witness:
  "performs stub_env stub_writer [DoWrite [], DoWrite []]
     = Returned [WriteResult 0 None, WriteResult 0 None] stub_writer
   \<and> (\<exists>bw'. Close stub_env stub_writer = Returned None bw'
         \<and> trace bw' = [CallGetUploadURL (Bucket ''bucket''),
                         CallUploadFile (URL ''upload'') [] 0 ''object'' ''text/plain'' ''00'' []])
   \<and> (\<exists>bw'. Close url_down_env stub_writer = Returned (Some ''unavailable'') bw'
         \<and> trace bw' = [CallGetUploadURL (Bucket ''bucket'')])"
proof (intro conjI)
  from close_without_bytes [where env = stub_env and b = "Bucket ''bucket''" and nm = "''object''"
      and ct = "''text/plain''" and meta = "[]" and cu = 0 and tr = 0 and n = 2,
      THEN conjunct1, folded stub_writer_fresh]
  show "performs stub_env stub_writer [DoWrite [], DoWrite []]
     = Returned [WriteResult 0 None, WriteResult 0 None] stub_writer"
    by (simp add: numeral_2_eq_2)
next
  have empty: "hex (sha1_Sum stub_env (sha1_New stub_env)) = ''00''"
    by (simp add: stub_env_def hex_def hexdigit_def)
  from close_without_bytes [where env = stub_env and b = "Bucket ''bucket''" and nm = "''object''"
      and ct = "''text/plain''" and meta = "[]" and cu = 0 and tr = 0 and ue = "URL ''upload''",
      THEN conjunct2, THEN conjunct1, folded stub_writer_fresh]
  show "\<exists>bw'. Close stub_env stub_writer = Returned None bw'
         \<and> trace bw' = [CallGetUploadURL (Bucket ''bucket''),
                         CallUploadFile (URL ''upload'') [] 0 ''object'' ''text/plain'' ''00'' []]"
    by (simp add: stub_env_accepts empty)
next
  have fresh: "stub_writer = (NewWriter url_down_env (Bucket ''bucket'') ''object'' ''text/plain'' [])
                   \<lparr>ConcurrentUploads := 0, TotalRetries := 0\<rparr>"
    by (simp add: stub_writer_def NewWriter_def url_down_env_def)
  from close_without_bytes [where env = url_down_env and b = "Bucket ''bucket''" and nm = "''object''"
      and ct = "''text/plain''" and meta = "[]" and cu = 0 and tr = 0 and e = "''unavailable''",
      THEN conjunct2, THEN conjunct2, folded fresh]
  show "\<exists>bw'. Close url_down_env stub_writer = Returned (Some ''unavailable'') bw'
         \<and> trace bw' = [CallGetUploadURL (Bucket ''bucket'')]"
    by (simp add: url_down_env_def)
qed

text \<open>No upload URL can be obtained: \<^verbatim>\<open>Close\<close> on a writer without bytes returns the error
  early and issues no whole-object upload.\<close>

theorem close_without_bytes_counterexample:
  "Close url_down_env stub_writer
     = Returned (Some ''unavailable'')
         (stub_writer\<lparr>done_w := True, trace := [CallGetUploadURL (Bucket ''bucket'')]\<rparr>)
   \<and> filter is_upload
        (trace (stub_writer\<lparr>done_w := True, trace := [CallGetUploadURL (Bucket ''bucket'')]\<rparr>)) = []"
  by (simp add: Close_url_down)

text \<open>
  C10. \<^verbatim>\<open>addWriter\<close> stores the writer under the key \<open>bucket name + "/" + object name\<close>,
  allocating the map when it is nil, and changes no other key. \<^verbatim>\<open>removeWriter\<close> leaves
  no entry under that key and changes no other key; when there was no entry (a nil map
  included) the client is unchanged. Removing after adding leaves no entry under the key.
\<close>

theorem registry_add_remove:
  "writer_key w = Name (bucket w) @ ''/'' @ name w
   \<and> sWriters (addWriter c w) \<noteq> None
   \<and> registered (addWriter c w) (writer_key w) = Some w
   \<and> (\<forall>k. k \<noteq> writer_key w \<longrightarrow> registered (addWriter c w) k = registered c k)
   \<and> registered (removeWriter c w) (writer_key w) = None
   \<and> (\<forall>k. k \<noteq> writer_key w \<longrightarrow> registered (removeWriter c w) k = registered c k)
   \<and> (registered c (writer_key w) = None \<longrightarrow> removeWriter c w = c)
   \<and> registered (removeWriter (addWriter c w) w) (writer_key w) = None"
proof -
  have "sWriters (addWriter c w) \<noteq> None"
    by (simp add: addWriter_def)
  moreover have "writer_key w = Name (bucket w) @ ''/'' @ name w"
    by (simp add: writer_key_def)
  ultimately show ?thesis
    using removeWriter_absent [of c w]
    by (simp add: registered_addWriter registered_removeWriter)
qed

theorem registry_add_remove_witness:
  "writer_key stub_writer = ''bucket/object''
   \<and> registered (\<lparr>sWriters = None\<rparr> :: nat Writer Client) ''bucket/object'' = None
   \<and> removeWriter \<lparr>sWriters = None\<rparr> stub_writer = \<lparr>sWriters = None\<rparr>
   \<and> registered (addWriter \<lparr>sWriters = None\<rparr> stub_writer) ''bucket/object'' = Some stub_writer
   \<and> ''bucket/other'' \<noteq> writer_key stub_writer
   \<and> registered (addWriter \<lparr>sWriters = None\<rparr> stub_writer) ''bucket/other'' = None
   \<and> registered (removeWriter (addWriter \<lparr>sWriters = None\<rparr> stub_writer) stub_writer) ''bucket/object''
       = None"
proof -
  let ?c = "\<lparr>sWriters = None\<rparr> :: nat Writer Client"
  have key: "writer_key stub_writer = ''bucket/object''"
    by (simp add: writer_key_def stub_writer_def NewWriter_def)
  have empty: "registered ?c k = None" for k
    by (simp add: registered_def)
  have other: "''bucket/other'' \<noteq> writer_key stub_writer"
    by (simp add: key)
  note all = registry_add_remove [of stub_writer ?c, THEN conjunct2]
  show ?thesis
    using all other by (simp add: key empty)
qed

end
